theory Spec2Isabelle
  imports Main "HOL-Library.Sublist"
begin

section \<open>Wikitext table extraction of download\_wiki\_plates.py\<close>

text \<open>
  The embedding covers the parsing core of \<^verbatim>\<open>scripts/download_wiki_plates.py\<close>:
  the two lookup tables, \<^verbatim>\<open>_parse_table_row\<close> and \<^verbatim>\<open>parse_plate_tables\<close>.
  Python text is modelled as \<^typ>\<open>string\<close>; a \<^typ>\<open>char\<close> stands for one code point
  below 256, so the model covers markup in the Latin-1 range, where \<^verbatim>\<open>str.lower\<close> and
  \<^verbatim>\<open>str.strip\<close> are as written out below.
\<close>

subsection \<open>Lookup tables\<close>

definition WIKI_CODE_TO_ISO :: "(string \<times> string) list" where
  "WIKI_CODE_TO_ISO =
    [(''A'', ''AT''), (''B'', ''BE''), (''BIH'', ''BA''), (''BG'', ''BG''),
     (''HR'', ''HR''), (''CY'', ''CY''), (''CZ'', ''CZ''), (''DK'', ''DK''),
     (''EST'', ''EE''), (''FIN'', ''FI''), (''F'', ''FR''), (''D'', ''DE''),
     (''GR'', ''GR''), (''H'', ''HU''), (''IS'', ''IS''), (''IRL'', ''IE''),
     (''I'', ''IT''), (''LV'', ''LV''), (''FL'', ''LI''), (''LT'', ''LT''),
     (''L'', ''LU''), (''M'', ''MT''), (''MC'', ''MC''), (''MNE'', ''ME''),
     (''NL'', ''NL''), (''NMK'', ''MK''), (''N'', ''NO''), (''PL'', ''PL''),
     (''P'', ''PT''), (''RO'', ''RO''), (''RSM'', ''SM''), (''SRB'', ''RS''),
     (''SK'', ''SK''), (''SLO'', ''SI''), (''E'', ''ES''), (''S'', ''SE''),
     (''CH'', ''CH''), (''UA'', ''UA''), (''UK'', ''GB''), (''V'', ''VA''),
     (''AND'', ''AD''), (''AM'', ''AM''), (''AZ'', ''AZ''), (''GE'', ''GE''),
     (''RUS'', ''RU''), (''TR'', ''TR''),
     (''AX'', ''AX''), (''GBA'', ''GBA''), (''FO'', ''FO''), (''GBZ'', ''GBZ''),
     (''GBG'', ''GBG''), (''GBM'', ''GBM''), (''GBJ'', ''GBJ''),
     (''ABH'', ''ABH''), (''RKS'', ''XK''), (''TRNC'', ''TRNC''),
     (''RSO'', ''RSO''), (''PMR'', ''PMR'')]"

definition TERRITORY_NAMES :: "(string \<times> string) list" where
  "TERRITORY_NAMES =
    [(''AL'', ''Albania''), (''AD'', ''Andorra''), (''AT'', ''Austria''), (''BY'', ''Belarus''),
     (''BE'', ''Belgium''), (''BA'', ''Bosnia and Herzegovina''), (''BG'', ''Bulgaria''),
     (''HR'', ''Croatia''), (''CY'', ''Cyprus''), (''CZ'', ''Czech Republic''), (''DK'', ''Denmark''),
     (''EE'', ''Estonia''), (''FI'', ''Finland''), (''FR'', ''France''), (''DE'', ''Germany''),
     (''GR'', ''Greece''), (''HU'', ''Hungary''), (''IS'', ''Iceland''), (''IE'', ''Ireland''),
     (''IT'', ''Italy''), (''LV'', ''Latvia''), (''LI'', ''Liechtenstein''), (''LT'', ''Lithuania''),
     (''LU'', ''Luxembourg''), (''MT'', ''Malta''), (''MD'', ''Moldova''), (''MC'', ''Monaco''),
     (''ME'', ''Montenegro''), (''NL'', ''Netherlands''), (''MK'', ''North Macedonia''),
     (''NO'', ''Norway''), (''PL'', ''Poland''), (''PT'', ''Portugal''), (''RO'', ''Romania''),
     (''SM'', ''San Marino''), (''RS'', ''Serbia''), (''SK'', ''Slovakia''), (''SI'', ''Slovenia''),
     (''ES'', ''Spain''), (''SE'', ''Sweden''), (''CH'', ''Switzerland''), (''UA'', ''Ukraine''),
     (''GB'', ''United Kingdom''), (''VA'', ''Vatican City''),
     (''AM'', ''Armenia''), (''AZ'', ''Azerbaijan''), (''GE'', ''Georgia''), (''RU'', ''Russia''),
     (''TR'', ''Turkey''),
     (''AX'', ''Aland Islands''), (''GBA'', ''Alderney''), (''FO'', ''Faroe Islands''),
     (''GBZ'', ''Gibraltar''), (''GBG'', ''Guernsey''), (''GBM'', ''Isle of Man''),
     (''GBJ'', ''Jersey''),
     (''ABH'', ''Abkhazia''), (''XK'', ''Kosovo''), (''TRNC'', ''Northern Cyprus''),
     (''RSO'', ''South Ossetia''), (''PMR'', ''Transnistria'')]"

text \<open>\<^verbatim>\<open>d.get(k, default)\<close> on a dict literal (the keys of both tables are distinct).\<close>

definition dict_get :: "('k \<times> 'v) list \<Rightarrow> 'k \<Rightarrow> 'v \<Rightarrow> 'v" where
  "dict_get d k dflt = (case map_of d k of None \<Rightarrow> dflt | Some v \<Rightarrow> v)"

subsection \<open>Python string primitives\<close>

definition is_AZ :: "char \<Rightarrow> bool" where
  \<comment> \<open>the regex class \<^verbatim>\<open>[A-Z]\<close>\<close>
  "is_AZ c = (65 \<le> (of_char c :: nat) \<and> (of_char c :: nat) \<le> 90)"

definition lower_char :: "char \<Rightarrow> char" where
  \<comment> \<open>\<^verbatim>\<open>str.lower\<close> on one code point below 256: A-Z, and the Latin-1 capitals
      0xC0-0xDE other than the multiplication sign 0xD7, move up by 32\<close>
  "lower_char c =
     (let n = (of_char c :: nat)
      in if (65 \<le> n \<and> n \<le> 90) \<or> (192 \<le> n \<and> n \<le> 222 \<and> n \<noteq> 215)
         then char_of (n + 32) else c)"

definition py_lower :: "string \<Rightarrow> string" where
  "py_lower s = map lower_char s"

definition is_space :: "char \<Rightarrow> bool" where
  \<comment> \<open>\<^verbatim>\<open>str.isspace\<close> on one code point below 256\<close>
  "is_space c = ((of_char c :: nat) \<in> {9, 10, 11, 12, 13, 28, 29, 30, 31, 32, 133, 160})"

definition py_strip :: "string \<Rightarrow> string" where
  \<comment> \<open>\<^verbatim>\<open>s.strip()\<close>: leading and trailing whitespace removed\<close>
  "py_strip s = rev (dropWhile is_space (rev (dropWhile is_space s)))"

definition py_in :: "string \<Rightarrow> string \<Rightarrow> bool" where
  \<comment> \<open>\<^verbatim>\<open>p in s\<close> on strings: \<open>p\<close> occurs as a contiguous substring\<close>
  "py_in p s = sublist p s"

fun find_idx :: "string \<Rightarrow> string \<Rightarrow> nat \<Rightarrow> nat option" where
  "find_idx sub [] i = (if sub = [] then Some i else None)"
| "find_idx sub (c # cs) i = (if prefix sub (c # cs) then Some i else find_idx sub cs (Suc i))"

definition py_find :: "string \<Rightarrow> string \<Rightarrow> nat \<Rightarrow> nat option" where
  \<comment> \<open>\<^verbatim>\<open>s.find(sub, start)\<close> for \<open>start \<ge> 0\<close>: the lowest index at or after \<open>start\<close>
      where \<open>sub\<close> occurs; \<open>None\<close> stands for the result -1\<close>
  "py_find s sub start = (if start \<le> length s then find_idx sub (drop start s) start else None)"

definition py_slice :: "string \<Rightarrow> nat \<Rightarrow> nat \<Rightarrow> string" where
  \<comment> \<open>\<^verbatim>\<open>s[i:j]\<close> for non-negative indices\<close>
  "py_slice s i j = take (j - i) (drop i s)"

subsection \<open>The regular expressions\<close>

text \<open>
  \<^verbatim>\<open>re.split(r"\n\|-", table_text)\<close>: the text is cut at every occurrence of the three
  characters newline, bar, minus, scanning from the left. A character that does not
  start a separator joins the first segment of what follows; the result always has at
  least one segment, so the last case is never taken.
\<close>

fun split_rows :: "string \<Rightarrow> string list" where
  "split_rows [] = [[]]"
| "split_rows (c # cs) =
     (if prefix [CHR 0x0A, CHR ''|'', CHR ''-''] (c # cs) then [] # split_rows (drop 2 cs)
      else (case split_rows cs of
              seg # segs \<Rightarrow> (c # seg) # segs
            | [] \<Rightarrow> [[c]]))"

text \<open>
  \<^verbatim>\<open>\[\[Vehicle registration plates of [^|]+\|([A-Z]+)\]\]\<close> tried at the start of \<open>s\<close>.
  After the literal opening, \<^verbatim>\<open>[^|]+\<close> can only stop in front of a bar, so it takes
  all characters up to the first bar; \<^verbatim>\<open>[A-Z]+\<close> can only stop in front of \<^verbatim>\<open>]\<close>, so it
  takes the whole run of capitals. Backtracking to a shorter run never helps, which
  makes the match at a position unique; this is proved below against the pattern's
  language (\<open>code_link\<close>).
\<close>

definition code_prefix :: string where
  "code_prefix = ''[[Vehicle registration plates of ''"

definition code_match_at :: "string \<Rightarrow> string option" where
  "code_match_at s =
     (if \<not> prefix code_prefix s then None
      else let r = drop (length code_prefix) s;
               place = takeWhile (\<lambda>c. c \<noteq> CHR ''|'') r;
               r1 = dropWhile (\<lambda>c. c \<noteq> CHR ''|'') r
           in if place = [] \<or> r1 = [] then None
              else let r2 = tl r1;
                       code = takeWhile is_AZ r2;
                       r3 = dropWhile is_AZ r2
                   in if code = [] \<or> \<not> prefix '']]'' r3 then None else Some code)"

text \<open>\<^verbatim>\<open>re.search\<close>: the match at the leftmost position that has one; group 1 is returned.\<close>

fun code_search :: "string \<Rightarrow> string option" where
  "code_search [] = code_match_at []"
| "code_search (c # cs) =
     (case code_match_at (c # cs) of Some code \<Rightarrow> Some code | None \<Rightarrow> code_search cs)"

text \<open>
  \<^verbatim>\<open>\[\[(?:File|Image):([^|\]]+)\<close> tried at the start of \<open>s\<close>: group 1 (greedy, so the
  whole run of characters other than bar and closing bracket) and the text after the
  match.
\<close>

definition is_name_char :: "char \<Rightarrow> bool" where
  \<comment> \<open>the regex class \<^verbatim>\<open>[^|\]]\<close>\<close>
  "is_name_char c = (c \<noteq> CHR ''|'' \<and> c \<noteq> CHR '']'')"

definition file_match_at :: "string \<Rightarrow> (string \<times> string) option" where
  "file_match_at s =
     (case (if prefix ''[[File:'' s then Some (drop 7 s)
            else if prefix ''[[Image:'' s then Some (drop 8 s) else None) of
        None \<Rightarrow> None
      | Some r \<Rightarrow>
          if takeWhile is_name_char r = [] then None
          else Some (takeWhile is_name_char r, dropWhile is_name_char r))"

lemma file_match_at_shorter:
  "file_match_at s = Some (f, r) \<Longrightarrow> length r < length s"
proof -
  assume a: "file_match_at s = Some (f, r)"
  have d: "length (dropWhile is_name_char t) \<le> length t" for t
    by (rule length_dropWhile_le)
  from a obtain t where t: "r = dropWhile is_name_char t" "t = drop 7 s \<or> t = drop 8 s"
    "prefix ''[[File:'' s \<or> prefix ''[[Image:'' s"
    by (auto simp: file_match_at_def split: if_splits)
  from t(3) have "7 \<le> length s" by (auto dest: prefix_length_le)
  with t(1,2) d[of t] show ?thesis by auto
qed

text \<open>
  \<^verbatim>\<open>re.findall\<close>: the non-overlapping matches from left to right; after a match the scan
  goes on behind it, otherwise one character further.
\<close>

function file_findall :: "string \<Rightarrow> string list" where
  "file_findall s =
     (case file_match_at s of
        Some (f, r) \<Rightarrow> f # file_findall r
      | None \<Rightarrow> (case s of [] \<Rightarrow> [] | c # cs \<Rightarrow> file_findall cs))"
  by pat_completeness auto
termination
  by (relation "measure length") (auto dest: file_match_at_shorter)

declare file_findall.simps [simp del]

subsection \<open>\<^verbatim>\<open>_parse_table_row\<close>\<close>

record entry =
  wiki_code :: string
  iso :: string
  name :: string
  image_file :: string
  section_label :: string

definition strip_patterns :: "string list" where
  "strip_patterns =
    [''euroband'', ''eurobamd'',
     ''-band.'', ''band.png'', ''band.svg'',
     ''section-with'', ''section_with'', ''EU-section'',
     ''Non-EU-section'', ''Identifier'', ''Number Plate Band'',
     ''Blank Rear Identifier'']"

definition is_strip :: "string \<Rightarrow> bool" where
  \<comment> \<open>\<^verbatim>\<open>any(p.lower() in filename_clean.lower() for p in strip_patterns)\<close>\<close>
  "is_strip filename_clean =
     list_ex (\<lambda>p. py_in (py_lower p) (py_lower filename_clean)) strip_patterns"

text \<open>The loop over \<^verbatim>\<open>file_matches\<close>: \<open>None\<close> is the initial \<^verbatim>\<open>example_image = None\<close>.\<close>

fun example_image :: "string list \<Rightarrow> string option" where
  "example_image [] = None"
| "example_image (filename # rest) =
     (let filename_clean = py_strip filename
      in if \<not> is_strip filename_clean then Some filename_clean else example_image rest)"

definition parse_table_row :: "string \<Rightarrow> string \<Rightarrow> entry option" where
  "parse_table_row row_text section =
     (case code_search row_text of
        None \<Rightarrow> None
      | Some code \<Rightarrow>
          let file_matches = file_findall row_text
          in if file_matches = [] then None
             else (case example_image file_matches of
                     None \<Rightarrow> None
                   | Some img \<Rightarrow>
                       if img = [] then None
                       else Some \<lparr> wiki_code = code,
                                   iso = dict_get WIKI_CODE_TO_ISO code code,
                                   name = dict_get TERRITORY_NAMES
                                            (dict_get WIKI_CODE_TO_ISO code code) code,
                                   image_file = ''File:'' @ img,
                                   section_label = section \<rparr>))"

subsection \<open>\<^verbatim>\<open>parse_plate_tables\<close>\<close>

definition sections :: "(string \<times> string) list" where
  "sections =
    [(''countries'', ''=== Countries ===''),
     (''transcontinental'', ''=== Transcontinental countries ===''),
     (''dependent'', ''=== Dependent territories ===''),
     (''disputed'', ''=== Disputed territories ==='')]"

definition warning :: "string \<Rightarrow> string" where
  "warning header = ''  Warning: section '' @ [CHR 0x27] @ header @ [CHR 0x27] @ '' not found in wikitext''"

text \<open>The inner loop \<^verbatim>\<open>for row in rows[1:]\<close>, appending to \<^verbatim>\<open>entries\<close>.\<close>

fun rows_loop :: "entry list \<Rightarrow> string list \<Rightarrow> string \<Rightarrow> entry list" where
  "rows_loop entries [] section_name = entries"
| "rows_loop entries (row # rows) section_name =
     (case parse_table_row row section_name of
        None \<Rightarrow> rows_loop entries rows section_name
      | Some e \<Rightarrow> rows_loop (entries @ [e]) rows section_name)"

text \<open>
  One iteration of the outer loop. The state is the list \<^verbatim>\<open>entries\<close> and the lines
  printed so far. When \<^verbatim>\<open>table_start\<close> is -1 the source still computes \<^verbatim>\<open>table_end\<close>, but
  the guard that follows continues whatever its value, so the model stops there.
\<close>

definition section_step :: "string \<Rightarrow> entry list \<times> string list \<Rightarrow> string \<times> string
    \<Rightarrow> entry list \<times> string list" where
  "section_step wikitext st sec =
     (case (st, sec) of ((entries, printed), (section_name, header)) \<Rightarrow>
       (case py_find wikitext header 0 of
          None \<Rightarrow> (entries, printed @ [warning header])
        | Some start \<Rightarrow>
           (case py_find wikitext ''{|'' start of
              None \<Rightarrow> (entries, printed)
            | Some table_start \<Rightarrow>
               (case py_find wikitext ''|}'' table_start of
                  None \<Rightarrow> (entries, printed)
                | Some table_end \<Rightarrow>
                    let table_text = py_slice wikitext table_start table_end;
                        rows = split_rows table_text
                    in (rows_loop entries (tl rows) section_name, printed)))))"

definition parse_plate_tables :: "string \<Rightarrow> entry list \<times> string list" where
  \<comment> \<open>the returned list of entries, and the lines printed\<close>
  "parse_plate_tables wikitext = foldl (section_step wikitext) ([], []) sections"

section \<open>Notions the properties are stated with\<close>

text \<open>
  The language of the code-link pattern, written without reference to the matcher:
  \<open>code_link m code\<close> says that the text \<open>m\<close> is a whole match whose group is \<open>code\<close>.
  A row has a code link when some part of it is one; the leftmost code link is the
  one no other starts in front of.
\<close>

definition code_link :: "string \<Rightarrow> string \<Rightarrow> bool" where
  "code_link m code \<longleftrightarrow>
     (\<exists>place. m = code_prefix @ place @ ''|'' @ code @ '']]'' \<and>
        place \<noteq> [] \<and> CHR ''|'' \<notin> set place \<and> code \<noteq> [] \<and> (\<forall>c\<in>set code. is_AZ c))"

definition has_code_link :: "string \<Rightarrow> bool" where
  "has_code_link row \<longleftrightarrow> (\<exists>pre m post code. row = pre @ m @ post \<and> code_link m code)"

definition leftmost_code_link :: "string \<Rightarrow> string \<Rightarrow> bool" where
  "leftmost_code_link row code \<longleftrightarrow>
     (\<exists>pre m post. row = pre @ m @ post \<and> code_link m code \<and>
        (\<forall>pre' m' post' code'. row = pre' @ m' @ post' \<and> code_link m' code'
            \<longrightarrow> length pre \<le> length pre'))"

text \<open>
  Positions of a marker in a text: \<open>first_at s sub start i\<close> says that \<open>i\<close> is the lowest
  position at or behind \<open>start\<close> where \<open>sub\<close> occurs in \<open>s\<close>, and \<open>absent_from s sub start\<close>
  that there is none.
\<close>

definition occurs_at :: "string \<Rightarrow> string \<Rightarrow> nat \<Rightarrow> bool" where
  "occurs_at s sub i \<longleftrightarrow> i \<le> length s \<and> prefix sub (drop i s)"

definition first_at :: "string \<Rightarrow> string \<Rightarrow> nat \<Rightarrow> nat \<Rightarrow> bool" where
  "first_at s sub start i \<longleftrightarrow>
     start \<le> i \<and> occurs_at s sub i \<and> (\<forall>j. start \<le> j \<and> j < i \<longrightarrow> \<not> occurs_at s sub j)"

definition absent_from :: "string \<Rightarrow> string \<Rightarrow> nat \<Rightarrow> bool" where
  "absent_from s sub start \<longleftrightarrow> (\<forall>j. start \<le> j \<longrightarrow> \<not> occurs_at s sub j)"

text \<open>
  What one section contributes: its entries are those of the loop body run on that
  section alone from the empty state; its rows are the segments the loop body hands
  to the row classifier; its warnings are the lines it prints.
\<close>

definition section_entries :: "string \<Rightarrow> string \<Rightarrow> string \<Rightarrow> entry list" where
  "section_entries wikitext section_name header =
     fst (section_step wikitext ([], []) (section_name, header))"

definition section_rows :: "string \<Rightarrow> string \<Rightarrow> string list" where
  "section_rows wikitext header =
     (case py_find wikitext header 0 of
        None \<Rightarrow> []
      | Some start \<Rightarrow>
         (case py_find wikitext ''{|'' start of
            None \<Rightarrow> []
          | Some table_start \<Rightarrow>
             (case py_find wikitext ''|}'' table_start of
                None \<Rightarrow> []
              | Some table_end \<Rightarrow> tl (split_rows (py_slice wikitext table_start table_end)))))"

definition section_warnings :: "string \<Rightarrow> string \<Rightarrow> string list" where
  "section_warnings wikitext header =
     (if py_find wikitext header 0 = None then [warning header] else [])"

text \<open>The row separator, and the inverse of cutting a text at it.\<close>

definition row_sep :: string where
  "row_sep = [CHR 0x0A, CHR ''|'', CHR ''-'']"

fun join_rows :: "string list \<Rightarrow> string" where
  "join_rows [] = []"
| "join_rows [x] = x"
| "join_rows (x # y # ys) = x @ row_sep @ join_rows (y # ys)"

text \<open>
  The rows of the whole article with their section labels, section by section in the
  declared order and row by row within a table; the rank of a label is the position
  of its section in the declaration.
\<close>

definition extract_rows :: "string \<Rightarrow> (string \<times> string) list" where
  "extract_rows wikitext =
     concat (map (\<lambda>(label, header). map (\<lambda>row. (row, label)) (section_rows wikitext header))
               sections)"

definition section_rank :: "string \<Rightarrow> nat" where
  "section_rank label = length (takeWhile (\<lambda>(n, h). n \<noteq> label) sections)"

text \<open>
  Every link of the code-link shape in the row has a label the pattern rejects: an
  empty one, or one with a character that is not a capital.
\<close>

definition only_rejected_labels :: "string \<Rightarrow> bool" where
  "only_rejected_labels row \<longleftrightarrow>
     (\<forall>pre place label post.
        row = pre @ code_prefix @ place @ ''|'' @ label @ '']]'' @ post \<and>
        place \<noteq> [] \<and> CHR ''|'' \<notin> set place \<and> CHR '']'' \<notin> set label
        \<longrightarrow> label = [] \<or> (\<exists>c\<in>set label. \<not> is_AZ c))"

section \<open>Example rows and articles\<close>

definition row_uk :: string where
  "row_uk = ''| [[Vehicle registration plates of the United Kingdom|UK]] || [[File:British plate.jpg|200px]]''"

definition entry_uk :: entry where
  "entry_uk = \<lparr> wiki_code = ''UK'', iso = ''GB'', name = ''United Kingdom'',
      image_file = ''File:British plate.jpg'', section_label = ''countries'' \<rparr>"

definition row_bad_label :: string where
  "row_bad_label = ''[[Vehicle registration plates of Germany|d1]] || [[File:P.jpg]]''"

definition entry_two_links :: entry where
  "entry_two_links = \<lparr> wiki_code = ''D'', iso = ''DE'', name = ''Germany'',
      image_file = ''File:P.jpg'', section_label = ''countries'' \<rparr>"

definition row_germany :: string where
  "row_germany = ''| [[Germany]] || [[Vehicle registration plates of Germany|D]] || [[File:Germany_euroband.png]] || [[File:Germany_license_plate.jpg]]''"

definition row_blank_first :: string where
  "row_blank_first = ''[[Vehicle registration plates of Germany|D]] || [[File: |100px]] || [[File:Germany_license_plate.jpg]]''"

definition row_foo_band :: string where
  "row_foo_band = ''| [[Foo]] || [[Vehicle registration plates of Foo|FOO]] || [[File:Foo-band.svg]]''"

definition wikitext_two_sections :: string where
  "wikitext_two_sections =
     ''Intro'' @ [CHR 0x0A] @
     ''=== Countries ==='' @ [CHR 0x0A] @
     ''{| class=wikitable'' @ [CHR 0x0A] @
     ''! Country !! Code !! Example'' @ [CHR 0x0A] @
     ''|-'' @ [CHR 0x0A] @
     ''| Germany || [[Vehicle registration plates of Germany|D]] || [[File:Germany_euroband.png]] || [[File:Germany_license_plate.jpg]]'' @ [CHR 0x0A] @
     ''|-'' @ [CHR 0x0A] @
     ''| France || [[Vehicle registration plates of France|F]] || [[Image: France plate.jpg |200px]]'' @ [CHR 0x0A] @
     ''|}'' @ [CHR 0x0A] @
     ''=== Dependent territories ==='' @ [CHR 0x0A] @
     ''{|'' @ [CHR 0x0A] @
     ''! Territory'' @ [CHR 0x0A] @
     ''|-'' @ [CHR 0x0A] @
     ''| Jersey || [[Vehicle registration plates of Jersey|GBJ]] || [[File:Jersey plate.png]]'' @ [CHR 0x0A] @
     ''|}''"

definition wikitext_no_table :: string where
  "wikitext_no_table = ''=== Countries ==='' @ [CHR 0x0A] @ ''no table here''"

definition wikitext_open_only :: string where
  "wikitext_open_only =
     ''=== Countries ==='' @ [CHR 0x0A] @ ''{| class=wikitable'' @ [CHR 0x0A] @
     ''|-'' @ [CHR 0x0A] @ ''| row''"

definition entry_germany :: entry where
  "entry_germany = \<lparr> wiki_code = ''D'', iso = ''DE'', name = ''Germany'',
      image_file = ''File:Germany_license_plate.jpg'', section_label = ''countries'' \<rparr>"

definition entry_france :: entry where
  "entry_france = \<lparr> wiki_code = ''F'', iso = ''FR'', name = ''France'',
      image_file = ''File:France plate.jpg'', section_label = ''countries'' \<rparr>"

definition entry_jersey :: entry where
  "entry_jersey = \<lparr> wiki_code = ''GBJ'', iso = ''GBJ'', name = ''Jersey'',
      image_file = ''File:Jersey plate.png'', section_label = ''dependent'' \<rparr>"

definition row_header_cells :: string where
  "row_header_cells = ''! Country !! Code !! [[File:Plate.jpg]] [[Vehicle registration plates of Germany|d1]]''"

definition wikitext_shared_bar :: string where
  "wikitext_shared_bar =
     ''=== Countries ==='' @ [CHR 0x0A] @
     ''{|}'' @ [CHR 0x0A] @
     ''|-'' @ [CHR 0x0A] @
     ''| [[Vehicle registration plates of Germany|D]] || [[File:P.jpg]]'' @ [CHR 0x0A] @
     ''|}''"

definition row_links_later :: string where
  "row_links_later = ''| Germany || [[Vehicle registration plates of Germany|D]] || [[Vehicle registration plates of France|F]] || [[File:P.jpg]]''"

section \<open>The code-link pattern\<close>

lemma not_AZ_bracket: "\<not> is_AZ (CHR '']'')"
  by (simp add: is_AZ_def)

lemma takeWhile_stop:
  "\<forall>x\<in>set xs. P x \<Longrightarrow> \<not> P y \<Longrightarrow> takeWhile P (xs @ y # ys) = xs"
  by (induction xs) auto

lemma dropWhile_stop:
  "\<forall>x\<in>set xs. P x \<Longrightarrow> \<not> P y \<Longrightarrow> dropWhile P (xs @ y # ys) = y # ys"
  by (induction xs) auto

lemma code_match_at_complete:
  assumes "place \<noteq> []" "CHR ''|'' \<notin> set place" "code \<noteq> []" "\<forall>c\<in>set code. is_AZ c"
  shows "code_match_at (code_prefix @ place @ ''|'' @ code @ '']]'' @ post) = Some code"
proof -
  have p: "\<forall>x\<in>set place. x \<noteq> CHR ''|''" using assms(2) by auto
  have 1: "takeWhile (\<lambda>c. c \<noteq> CHR ''|'') (place @ CHR ''|'' # code @ CHR '']'' # CHR '']'' # post) = place"
    by (rule takeWhile_stop[OF p]) simp
  have 2: "dropWhile (\<lambda>c. c \<noteq> CHR ''|'') (place @ CHR ''|'' # code @ CHR '']'' # CHR '']'' # post) = CHR ''|'' # code @ CHR '']'' # CHR '']'' # post"
    by (rule dropWhile_stop[OF p]) simp
  have 3: "takeWhile is_AZ (code @ CHR '']'' # CHR '']'' # post) = code"
    by (rule takeWhile_stop[OF assms(4) not_AZ_bracket])
  have 4: "dropWhile is_AZ (code @ CHR '']'' # CHR '']'' # post) = CHR '']'' # CHR '']'' # post"
    by (rule dropWhile_stop[OF assms(4) not_AZ_bracket])
  show ?thesis
    using assms(1,3) by (simp add: code_match_at_def Let_def 1 2 3 4)
qed

lemma code_match_at_sound:
  assumes "code_match_at s = Some code"
  shows "\<exists>m post. s = m @ post \<and> code_link m code"
proof -
  let ?r = "drop (length code_prefix) s"
  let ?place = "takeWhile (\<lambda>c. c \<noteq> CHR ''|'') ?r"
  let ?r1 = "dropWhile (\<lambda>c. c \<noteq> CHR ''|'') ?r"
  let ?r2 = "tl ?r1"
  let ?r3 = "dropWhile is_AZ ?r2"
  from assms have pre: "prefix code_prefix s" and pl: "?place \<noteq> []" and r1: "?r1 \<noteq> []"
    and code: "code = takeWhile is_AZ ?r2" "code \<noteq> []" and r3: "prefix '']]'' ?r3"
    by (auto simp: code_match_at_def Let_def split: if_splits)
  from pre have s: "s = code_prefix @ ?r" by (metis append_eq_conv_conj prefixE)
  have r: "?r = ?place @ ?r1" by simp
  from r1 have "hd ?r1 = CHR ''|''" using hd_dropWhile[of "\<lambda>c. c \<noteq> CHR ''|''" ?r] by auto
  with r1 have r1': "?r1 = ''|'' @ ?r2" by (cases ?r1) auto
  have r2: "?r2 = code @ ?r3" using code by simp
  from r3 obtain post where post: "?r3 = '']]'' @ post" by (auto elim: prefixE)
  have nb: "CHR ''|'' \<notin> set ?place" by (auto dest: set_takeWhileD)
  have az: "\<forall>c\<in>set code. is_AZ c" using code by (auto dest: set_takeWhileD)
  have "s = (code_prefix @ ?place @ ''|'' @ code @ '']]'') @ post"
    using s r r1' r2 post by (metis append.assoc)
  moreover have "code_link (code_prefix @ ?place @ ''|'' @ code @ '']]'') code"
    unfolding code_link_def using pl nb code(2) az by blast
  ultimately show ?thesis by blast
qed

lemma code_search_None_iff:
  "code_search s = None \<longleftrightarrow> (\<forall>i\<le>length s. code_match_at (drop i s) = None)"
proof (induction s)
  case Nil
  then show ?case by simp
next
  case (Cons c cs)
  have "(\<forall>i\<le>length (c # cs). code_match_at (drop i (c # cs)) = None) \<longleftrightarrow>
        code_match_at (c # cs) = None \<and> (\<forall>i\<le>length cs. code_match_at (drop i cs) = None)"
    (is "?L \<longleftrightarrow> ?R")
  proof
    assume l: ?L
    have "code_match_at (drop 0 (c # cs)) = None" using l by blast
    moreover have "code_match_at (drop i cs) = None" if "i \<le> length cs" for i
      using l[rule_format, of "Suc i"] that by simp
    ultimately show ?R by simp
  next
    assume r: ?R
    show ?L
    proof (intro allI impI)
      fix i assume "i \<le> length (c # cs)"
      then show "code_match_at (drop i (c # cs)) = None"
        using r by (cases i) auto
    qed
  qed
  with Cons show ?case by (simp split: option.splits)
qed

lemma code_search_Some_first:
  "code_search s = Some code \<Longrightarrow>
     \<exists>i\<le>length s. code_match_at (drop i s) = Some code \<and> (\<forall>j<i. code_match_at (drop j s) = None)"
proof (induction s)
  case Nil
  then show ?case by simp
next
  case (Cons c cs)
  show ?case
  proof (cases "code_match_at (c # cs)")
    case (Some a)
    with Cons.prems have "a = code" by simp
    with Some show ?thesis by (intro exI[of _ 0]) simp
  next
    case None
    with Cons.prems have "code_search cs = Some code" by simp
    from Cons.IH[OF this] obtain i where i: "i \<le> length cs" "code_match_at (drop i cs) = Some code"
      "\<forall>j<i. code_match_at (drop j cs) = None" by blast
    have "\<forall>j<Suc i. code_match_at (drop j (c # cs)) = None"
    proof (intro allI impI)
      fix j assume "j < Suc i"
      then show "code_match_at (drop j (c # cs)) = None"
        using None i(3) by (cases j) auto
    qed
    with i(1,2) show ?thesis by (intro exI[of _ "Suc i"]) simp
  qed
qed

section \<open>Whitespace, case and the blocklist\<close>

lemma is_space_lower_char: "is_space (lower_char c) = is_space c"
proof -
  have n: "(of_char c :: nat) < 256" by simp
  show ?thesis
    unfolding is_space_def lower_char_def Let_def
    using n by (auto simp: mod_if)
qed

lemma py_lower_strip: "py_lower (py_strip s) = py_strip (py_lower s)"
proof -
  have "is_space \<circ> lower_char = is_space" by (rule ext) (simp add: is_space_lower_char)
  then show ?thesis
    by (simp add: py_lower_def py_strip_def rev_map dropWhile_map)
qed

lemma sublist_dropWhile:
  assumes "sublist p s" "p \<noteq> []" "\<not> P (hd p)"
  shows "sublist p (dropWhile P s)"
proof -
  from assms(1) obtain ps ss where s: "s = ps @ p @ ss" by (auto simp: sublist_def)
  from assms(2,3) obtain x p' where p: "p = x # p'" "\<not> P x" by (cases p) auto
  have "dropWhile P s = dropWhile P ps @ p @ ss"
    unfolding s using p by (induction ps) auto
  then show ?thesis by (simp add: sublist_def) blast
qed

lemma sublist_py_strip:
  assumes "p \<noteq> []" "\<not> is_space (hd p)" "\<not> is_space (last p)"
  shows "sublist p (py_strip s) \<longleftrightarrow> sublist p s"
proof
  assume "sublist p (py_strip s)"
  moreover have "sublist (py_strip s) s"
  proof -
    have "sublist (rev (py_strip s)) (rev (dropWhile is_space s))"
      unfolding py_strip_def by (simp del: sublist_rev) 
    then have "sublist (py_strip s) (dropWhile is_space s)" by simp
    also have "sublist (dropWhile is_space s) s" by simp
    finally show ?thesis .
  qed
  ultimately show "sublist p s" by (rule sublist_order.order.trans)
next
  assume "sublist p s"
  then have 1: "sublist p (dropWhile is_space s)"
    using assms(1,2) by (rule sublist_dropWhile)
  then have "sublist (rev p) (rev (dropWhile is_space s))" by simp
  then have "sublist (rev p) (dropWhile is_space (rev (dropWhile is_space s)))"
    using assms(1,3) by (intro sublist_dropWhile) (simp_all add: hd_rev)
  then show "sublist p (py_strip s)"
    unfolding py_strip_def by (simp add: sublist_rev_left)
qed

lemma strip_patterns_ends:
  "\<forall>p\<in>set strip_patterns. py_lower p \<noteq> [] \<and> \<not> is_space (hd (py_lower p)) \<and> \<not> is_space (last (py_lower p))"
  apply (simp add: strip_patterns_def py_lower_def is_space_lower_char)
  apply (simp add: is_space_def)
  done

lemma is_strip_py_strip: "is_strip (py_strip f) = is_strip f"
  using strip_patterns_ends
  by (auto simp: is_strip_def py_in_def list_ex_iff py_lower_strip sublist_py_strip)

section \<open>Candidate enumeration and the choice of the example image\<close>

lemma example_image_all_strip:
  "\<forall>f\<in>set fs. is_strip f \<Longrightarrow> example_image fs = None"
  by (induction fs) (simp_all add: is_strip_py_strip)

lemma example_image_first:
  "\<forall>g\<in>set rejected. is_strip g \<Longrightarrow> \<not> is_strip f \<Longrightarrow>
     example_image (rejected @ f # rest) = Some (py_strip f)"
  by (induction rejected) (simp_all add: is_strip_py_strip)

lemma example_image_Some:
  "example_image fs = Some img \<Longrightarrow>
     \<exists>rejected f rest. fs = rejected @ f # rest \<and> (\<forall>g\<in>set rejected. is_strip g) \<and>
        \<not> is_strip f \<and> img = py_strip f"
proof (induction fs)
  case Nil
  then show ?case by simp
next
  case (Cons a fs)
  show ?case
  proof (cases "is_strip a")
    case True
    with Cons.prems have "example_image fs = Some img" by (simp add: is_strip_py_strip)
    from Cons.IH[OF this] obtain rejected f rest where
      "fs = rejected @ f # rest" "\<forall>g\<in>set rejected. is_strip g" "\<not> is_strip f" "img = py_strip f"
      by blast
    with True show ?thesis by (intro exI[of _ "a # rejected"] exI[of _ f] exI[of _ rest]) simp
  next
    case False
    with Cons.prems have "img = py_strip a" by (simp add: is_strip_py_strip)
    with False show ?thesis by (intro exI[of _ "[]"] exI[of _ a] exI[of _ fs]) simp
  qed
qed

lemma file_findall_Nil: "file_findall [] = []"
  by (simp add: file_findall.simps file_match_at_def)

lemma file_findall_match:
  "file_match_at s = Some (f, r) \<Longrightarrow> file_findall s = f # file_findall r"
  by (subst file_findall.simps) simp

lemma file_findall_skip:
  "file_match_at (c # cs) = None \<Longrightarrow> file_findall (c # cs) = file_findall cs"
  by (subst file_findall.simps) simp

lemma file_match_at_not_bracket:
  "c \<noteq> CHR ''['' \<Longrightarrow> file_match_at (c # cs) = None"
  by (simp add: file_match_at_def)

lemma file_findall_skip_pre:
  "CHR ''['' \<notin> set pre \<Longrightarrow> file_findall (pre @ s) = file_findall s"
  by (induction pre) (auto simp: file_findall_skip file_match_at_not_bracket)

lemma file_match_at_name:
  "file_match_at s = Some (f, r) \<Longrightarrow> f \<noteq> [] \<and> (\<forall>c\<in>set f. is_name_char c)"
  by (auto simp: file_match_at_def split: if_splits dest: set_takeWhileD)

lemma file_findall_names:
  "f \<in> set (file_findall s) \<Longrightarrow> f \<noteq> [] \<and> (\<forall>c\<in>set f. is_name_char c)"
proof (induction s rule: file_findall.induct)
  case (1 s)
  show ?case
  proof (cases "file_match_at s")
    case None
    show ?thesis
    proof (cases s)
      case Nil
      with "1.prems" show ?thesis by (simp add: file_findall_Nil)
    next
      case (Cons c cs)
      with None "1.prems" have "f \<in> set (file_findall cs)" by (simp add: file_findall_skip)
      with "1.IH"(1)[OF None Cons] show ?thesis by simp
    qed
  next
    case (Some a)
    obtain g r where a: "a = (g, r)" by (cases a)
    with Some "1.prems" have "f = g \<or> f \<in> set (file_findall r)"
      by (simp add: file_findall_match)
    then show ?thesis
    proof
      assume "f = g"
      with Some a show ?thesis using file_match_at_name by blast
    next
      assume "f \<in> set (file_findall r)"
      with "1.IH"(2)[OF Some a[symmetric]] show ?thesis by simp
    qed
  qed
qed

lemma file_match_at_File:
  assumes "f \<noteq> []" "\<forall>c\<in>set f. is_name_char c"
  shows "file_match_at (''[[File:'' @ f @ '']]'' @ rest) = Some (f, '']]'' @ rest)"
proof -
  have n: "\<not> is_name_char (CHR '']'')" by (simp add: is_name_char_def)
  have "takeWhile is_name_char (f @ CHR '']'' # CHR '']'' # rest) = f"
       "dropWhile is_name_char (f @ CHR '']'' # CHR '']'' # rest) = CHR '']'' # CHR '']'' # rest"
    using assms(2) n by (simp_all add: takeWhile_stop dropWhile_stop)
  with assms(1) show ?thesis by (simp add: file_match_at_def)
qed

lemma file_match_at_Image:
  assumes "f \<noteq> []" "\<forall>c\<in>set f. is_name_char c"
  shows "file_match_at (''[[Image:'' @ f @ '']]'' @ rest) = Some (f, '']]'' @ rest)"
proof -
  have n: "\<not> is_name_char (CHR '']'')" by (simp add: is_name_char_def)
  have "takeWhile is_name_char (f @ CHR '']'' # CHR '']'' # rest) = f"
       "dropWhile is_name_char (f @ CHR '']'' # CHR '']'' # rest) = CHR '']'' # CHR '']'' # rest"
    using assms(2) n by (simp_all add: takeWhile_stop dropWhile_stop)
  with assms(1) show ?thesis by (simp add: file_match_at_def)
qed

lemma file_findall_File:
  assumes "CHR ''['' \<notin> set mid" "f \<noteq> []" "\<forall>c\<in>set f. is_name_char c"
  shows "file_findall (mid @ ''[[File:'' @ f @ '']]'' @ rest) = f # file_findall rest"
proof -
  have "file_findall (mid @ ''[[File:'' @ f @ '']]'' @ rest) = file_findall (''[[File:'' @ f @ '']]'' @ rest)"
    using assms(1) by (rule file_findall_skip_pre)
  also have "\<dots> = f # file_findall ('']]'' @ rest)"
    using file_match_at_File[OF assms(2,3)] by (rule file_findall_match)
  also have "file_findall ('']]'' @ rest) = file_findall rest"
    by (rule file_findall_skip_pre) simp
  finally show ?thesis .
qed

lemma file_findall_Image:
  assumes "CHR ''['' \<notin> set mid" "f \<noteq> []" "\<forall>c\<in>set f. is_name_char c"
  shows "file_findall (mid @ ''[[Image:'' @ f @ '']]'' @ rest) = f # file_findall rest"
proof -
  have "file_findall (mid @ ''[[Image:'' @ f @ '']]'' @ rest) = file_findall (''[[Image:'' @ f @ '']]'' @ rest)"
    using assms(1) by (rule file_findall_skip_pre)
  also have "\<dots> = f # file_findall ('']]'' @ rest)"
    using file_match_at_Image[OF assms(2,3)] by (rule file_findall_match)
  also have "file_findall ('']]'' @ rest) = file_findall rest"
    by (rule file_findall_skip_pre) simp
  finally show ?thesis .
qed

lemma file_findall_code_link:
  assumes "CHR ''['' \<notin> set place" "\<forall>c\<in>set code. is_AZ c"
  shows "file_findall (code_prefix @ place @ ''|'' @ code @ '']]'' @ rest) = file_findall rest"
proof -
  have c: "CHR ''['' \<notin> set code" using assms(2) by (auto simp: is_AZ_def)
  have "file_findall (code_prefix @ place @ ''|'' @ code @ '']]'' @ rest)
        = file_findall (''Vehicle registration plates of '' @ place @ ''|'' @ code @ '']]'' @ rest)"
    by (simp add: code_prefix_def file_findall_skip file_match_at_def)
  also have "\<dots> = file_findall ((''Vehicle registration plates of '' @ place @ ''|'' @ code @ '']]'') @ rest)"
    by simp
  also have "\<dots> = file_findall rest"
    using assms(1) c by (intro file_findall_skip_pre) simp
  finally show ?thesis .
qed

lemma set_py_strip: "set (py_strip s) \<subseteq> set s"
  unfolding py_strip_def by (auto dest!: set_dropWhileD)

lemma py_strip_ends:
  "py_strip s \<noteq> [] \<Longrightarrow> \<not> is_space (hd (py_strip s)) \<and> \<not> is_space (last (py_strip s))"
proof -
  assume ne: "py_strip s \<noteq> []"
  let ?d = "dropWhile is_space s"
  let ?e = "dropWhile is_space (rev ?d)"
  from ne have e: "?e \<noteq> []" by (simp add: py_strip_def)
  then have l: "\<not> is_space (hd ?e)" by (rule hd_dropWhile)
  have last: "last (py_strip s) = hd ?e" using e by (simp add: py_strip_def last_rev)
  have "?d = [] \<Longrightarrow> ?e = []" by (simp only: rev.simps dropWhile.simps)
  with e have d: "?d \<noteq> []" by blast
  then have h: "\<not> is_space (hd ?d)" by (rule hd_dropWhile)
  have "rev ?d = takeWhile is_space (rev ?d) @ ?e" by simp
  then have "?d = rev ?e @ rev (takeWhile is_space (rev ?d))"
    by (metis rev_append rev_rev_ident)
  then have "hd ?d = hd (rev ?e)" using e by (metis hd_append2 rev_is_Nil_conv)
  with h have "\<not> is_space (hd (py_strip s))" by (simp add: py_strip_def)
  with l last show ?thesis by simp
qed

section \<open>The row classifier\<close>

lemma drop_eq_split: "drop i xs = t \<Longrightarrow> xs = take i xs @ t"
  by (metis append_take_drop_id)

lemma code_match_at_link:
  "code_link m code \<Longrightarrow> code_match_at (m @ post) = Some code"
  using code_match_at_complete by (auto simp: code_link_def)

lemma has_code_link_iff: "has_code_link row \<longleftrightarrow> code_search row \<noteq> None"
proof
  assume "has_code_link row"
  then obtain pre m post code where r: "row = pre @ m @ post" and l: "code_link m code"
    by (auto simp: has_code_link_def)
  have "code_match_at (drop (length pre) row) = Some code"
    using r l by (simp add: code_match_at_link)
  moreover have "length pre \<le> length row" using r by simp
  ultimately show "code_search row \<noteq> None"
    unfolding code_search_None_iff by (metis option.distinct(1))
next
  assume "code_search row \<noteq> None"
  then obtain code where "code_search row = Some code" by auto
  from code_search_Some_first[OF this] obtain i where
    i: "i \<le> length row" "code_match_at (drop i row) = Some code" by blast
  from code_match_at_sound[OF i(2)] obtain m post where
    m: "drop i row = m @ post" "code_link m code" by blast
  have "row = take i row @ m @ post" using m(1) by (rule drop_eq_split)
  with m(2) show "has_code_link row" unfolding has_code_link_def by blast
qed

lemma leftmost_code_link_iff: "leftmost_code_link row code \<longleftrightarrow> code_search row = Some code"
proof
  assume "leftmost_code_link row code"
  then obtain pre m post where r: "row = pre @ m @ post" and l: "code_link m code"
    and all: "\<forall>pre' m' post' code'. row = pre' @ m' @ post' \<and> code_link m' code'
                  \<longrightarrow> length pre \<le> length pre'"
    unfolding leftmost_code_link_def by (elim exE conjE)
  have least: "length pre \<le> length pre'"
    if "row = pre' @ m' @ post'" "code_link m' code'" for pre' m' post' code'
    using all[rule_format, of pre' m' post' code', OF conjI[OF that]] .
  have at: "code_match_at (drop (length pre) row) = Some code"
    using r l by (simp add: code_match_at_link)
  have "has_code_link row" using r l unfolding has_code_link_def by blast
  then obtain code0 where c0: "code_search row = Some code0"
    by (auto simp: has_code_link_iff)
  from code_search_Some_first[OF c0] obtain i where
    i: "i \<le> length row" "code_match_at (drop i row) = Some code0"
       "\<forall>j<i. code_match_at (drop j row) = None" by blast
  from code_match_at_sound[OF i(2)] obtain m0 post0 where
    m0: "drop i row = m0 @ post0" "code_link m0 code0" by blast
  have "row = take i row @ m0 @ post0" using m0(1) by (rule drop_eq_split)
  from least[OF this m0(2)] i(1) have "length pre \<le> i" by simp
  moreover have "\<not> length pre < i" using i(3) at by auto
  ultimately have "i = length pre" by simp
  with i(2) at have "code0 = code" by simp
  with c0 show "code_search row = Some code" by simp
next
  assume c: "code_search row = Some code"
  from code_search_Some_first[OF c] obtain i where
    i: "i \<le> length row" "code_match_at (drop i row) = Some code"
       "\<forall>j<i. code_match_at (drop j row) = None" by blast
  from code_match_at_sound[OF i(2)] obtain m post where
    m: "drop i row = m @ post" "code_link m code" by blast
  have r: "row = take i row @ m @ post" using m(1) by (rule drop_eq_split)
  have "length (take i row) \<le> length pre'"
    if "row = pre' @ m' @ post'" "code_link m' code'" for pre' m' post' code'
  proof (rule ccontr)
    assume "\<not> length (take i row) \<le> length pre'"
    with i(1) have "length pre' < i" by simp
    with i(3) have "code_match_at (drop (length pre') row) = None" by blast
    moreover have "code_match_at (drop (length pre') row) = Some code'"
      using that by (simp add: code_match_at_link)
    ultimately show False by simp
  qed
  with r m(2) show "leftmost_code_link row code"
    unfolding leftmost_code_link_def by blast
qed

lemma code_match_at_not_bracket:
  "c \<noteq> CHR ''['' \<Longrightarrow> code_match_at (c # cs) = None"
  by (simp add: code_match_at_def code_prefix_def)

lemma code_search_skip:
  "CHR ''['' \<notin> set pre \<Longrightarrow> code_search (pre @ s) = code_search s"
proof (induction pre)
  case Nil
  then show ?case by simp
next
  case (Cons c pre)
  then show ?case by (cases s) (auto simp: code_match_at_not_bracket)
qed

lemma code_search_here:
  "code_match_at s = Some code \<Longrightarrow> code_search s = Some code"
  by (cases s) auto

lemma code_search_AZ:
  assumes "code_search s = Some code"
  shows "code \<noteq> [] \<and> (\<forall>c\<in>set code. is_AZ c)"
proof -
  from code_search_Some_first[OF assms] obtain i where "code_match_at (drop i s) = Some code"
    by blast
  from code_match_at_sound[OF this] show ?thesis by (auto simp: code_link_def)
qed

lemma parse_table_row_Some:
  assumes "parse_table_row row section = Some e"
  shows "\<exists>code img. code_search row = Some code \<and> example_image (file_findall row) = Some img
           \<and> img \<noteq> [] \<and>
           e = \<lparr> wiki_code = code, iso = dict_get WIKI_CODE_TO_ISO code code,
                 name = dict_get TERRITORY_NAMES (dict_get WIKI_CODE_TO_ISO code code) code,
                 image_file = ''File:'' @ img, section_label = section \<rparr>"
proof -
  from assms obtain code where c: "code_search row = Some code"
    by (cases "code_search row") (simp_all add: parse_table_row_def)
  from assms c obtain img where i: "example_image (file_findall row) = Some img"
    by (cases "example_image (file_findall row)")
       (simp_all add: parse_table_row_def Let_def split: if_splits)
  from assms c i have n: "img \<noteq> []"
    by (auto simp: parse_table_row_def Let_def split: if_splits)
  from i have "file_findall row \<noteq> []" by auto
  with assms c i n show ?thesis
    by (simp add: parse_table_row_def)
qed

lemma parse_table_row_entry:
  assumes "code_search row = Some code" "example_image (file_findall row) = Some img" "img \<noteq> []"
  shows "parse_table_row row section =
           Some \<lparr> wiki_code = code, iso = dict_get WIKI_CODE_TO_ISO code code,
                  name = dict_get TERRITORY_NAMES (dict_get WIKI_CODE_TO_ISO code code) code,
                  image_file = ''File:'' @ img, section_label = section \<rparr>"
proof -
  from assms(2) have "file_findall row \<noteq> []" by auto
  with assms show ?thesis by (simp add: parse_table_row_def)
qed

lemma parse_table_row_no_code:
  "code_search row = None \<Longrightarrow> parse_table_row row section = None"
  by (simp add: parse_table_row_def)

lemma parse_table_row_no_image:
  "example_image (file_findall row) = None \<Longrightarrow> parse_table_row row section = None"
  by (simp add: parse_table_row_def Let_def split: option.splits)

section \<open>Further facts about the row classifier\<close>

lemma code_link_bracket: "code_link m code \<Longrightarrow> CHR '']'' \<notin> set code"
  by (auto simp: code_link_def is_AZ_def)

lemma no_match_bad_labels:
  assumes "code_search row = None"
  shows "\<forall>pre place label post.
          row = pre @ code_prefix @ place @ ''|'' @ label @ '']]'' @ post \<and>
          place \<noteq> [] \<and> CHR ''|'' \<notin> set place \<and> CHR '']'' \<notin> set label
          \<longrightarrow> label = [] \<or> (\<exists>c\<in>set label. \<not> is_AZ c)"
proof (intro allI impI)
  fix pre place label post
  assume a: "row = pre @ code_prefix @ place @ ''|'' @ label @ '']]'' @ post \<and>
          place \<noteq> [] \<and> CHR ''|'' \<notin> set place \<and> CHR '']'' \<notin> set label"
  show "label = [] \<or> (\<exists>c\<in>set label. \<not> is_AZ c)"
  proof (rule ccontr)
    assume "\<not> (label = [] \<or> (\<exists>c\<in>set label. \<not> is_AZ c))"
    then have l: "label \<noteq> []" "\<forall>c\<in>set label. is_AZ c" by auto
    with a have "code_link (code_prefix @ place @ ''|'' @ label @ '']]'') label"
      unfolding code_link_def by blast
    moreover from a have "row = pre @ (code_prefix @ place @ ''|'' @ label @ '']]'') @ post"
      by simp
    ultimately have "has_code_link row" unfolding has_code_link_def by blast
    with assms show False by (simp add: has_code_link_iff)
  qed
qed

lemma dict_get_nonempty:
  "\<forall>kv\<in>set d. snd kv \<noteq> [] \<Longrightarrow> dflt \<noteq> [] \<Longrightarrow> dict_get d k dflt \<noteq> []"
  by (auto simp: dict_get_def split: option.splits dest!: map_of_SomeD)

lemma WIKI_CODE_TO_ISO_nonempty: "\<forall>kv\<in>set WIKI_CODE_TO_ISO. snd kv \<noteq> []"
  by (simp add: WIKI_CODE_TO_ISO_def)

lemma TERRITORY_NAMES_nonempty: "\<forall>kv\<in>set TERRITORY_NAMES. snd kv \<noteq> []"
  by (simp add: TERRITORY_NAMES_def)

lemma is_name_char_germany:
  "\<forall>c\<in>set ''Germany_euroband.png''. is_name_char c"
  "\<forall>c\<in>set ''Germany_license_plate.jpg''. is_name_char c"
  by (simp_all add: is_name_char_def)

section \<open>The table extractor\<close>

lemma drop_drop_diff: "k \<le> i \<Longrightarrow> drop (i - k) (drop k s) = drop i s"
  by (simp add: le_add_diff_inverse2)

lemma find_idx_Some:
  "find_idx sub t k = Some i \<longleftrightarrow>
     k \<le> i \<and> i - k \<le> length t \<and> prefix sub (drop (i - k) t) \<and>
     (\<forall>j<i - k. \<not> prefix sub (drop j t))"
proof (induction t arbitrary: k)
  case Nil
  then show ?case by auto
next
  case (Cons c cs)
  show ?case
  proof (cases "prefix sub (c # cs)")
    case True
    have "(k \<le> i \<and> i - k \<le> length (c # cs) \<and> prefix sub (drop (i - k) (c # cs)) \<and>
             (\<forall>j<i - k. \<not> prefix sub (drop j (c # cs)))) \<longleftrightarrow> i = k"
    proof
      assume a: "k \<le> i \<and> i - k \<le> length (c # cs) \<and> prefix sub (drop (i - k) (c # cs)) \<and>
             (\<forall>j<i - k. \<not> prefix sub (drop j (c # cs)))"
      show "i = k"
      proof (rule ccontr)
        assume "i \<noteq> k"
        with a have "0 < i - k" by simp
        with a have "\<not> prefix sub (drop 0 (c # cs))" by blast
        with True show False by simp
      qed
    next
      assume "i = k"
      with True show "k \<le> i \<and> i - k \<le> length (c # cs) \<and> prefix sub (drop (i - k) (c # cs)) \<and>
             (\<forall>j<i - k. \<not> prefix sub (drop j (c # cs)))" by simp
    qed
    with True show ?thesis by auto
  next
    case False
    have "(k \<le> i \<and> i - k \<le> length (c # cs) \<and> prefix sub (drop (i - k) (c # cs)) \<and>
             (\<forall>j<i - k. \<not> prefix sub (drop j (c # cs)))) \<longleftrightarrow>
          (Suc k \<le> i \<and> i - Suc k \<le> length cs \<and> prefix sub (drop (i - Suc k) cs) \<and>
             (\<forall>j<i - Suc k. \<not> prefix sub (drop j cs)))" (is "?L \<longleftrightarrow> ?R")
    proof
      assume l: ?L
      with False have ne: "i \<noteq> k" by auto
      with l have ki: "Suc k \<le> i" by simp
      then obtain d where d: "i - k = Suc d" "i - Suc k = d" by (cases "i - k") auto
      have "\<not> prefix sub (drop j cs)" if "j < d" for j
        using l d that by (metis Suc_less_eq drop_Suc_Cons)
      with l ki d show ?R by simp
    next
      assume r: ?R
      then obtain d where d: "i - k = Suc d" "i - Suc k = d" by (cases "i - k") auto
      have "\<not> prefix sub (drop j (c # cs))" if "j < Suc d" for j
        using r d that False by (cases j) auto
      with r d show ?L by simp
    qed
    with False Cons.IH[of "Suc k"] show ?thesis by simp
  qed
qed


lemma py_find_first_at: "py_find s sub start = Some i \<longleftrightarrow> first_at s sub start i"
proof (cases "start \<le> length s")
  case True
  have "find_idx sub (drop start s) start = Some i \<longleftrightarrow> first_at s sub start i"
    (is "?L \<longleftrightarrow> ?R")
  proof
    assume ?L
    then have a: "start \<le> i" "i - start \<le> length (drop start s)"
      "prefix sub (drop (i - start) (drop start s))"
      "\<forall>j<i - start. \<not> prefix sub (drop j (drop start s))"
      by (simp_all add: find_idx_Some del: drop_drop)
    from a(1,2) True have il: "i \<le> length s" by simp
    have "drop (i - start) (drop start s) = drop i s" using a(1) by (rule drop_drop_diff)
    with a(3) have p: "prefix sub (drop i s)" by (simp del: drop_drop)
    have "\<not> occurs_at s sub j" if "start \<le> j" "j < i" for j
    proof -
      from that have "j - start < i - start" by simp
      with a(4) have "\<not> prefix sub (drop (j - start) (drop start s))" by blast
      moreover have "drop (j - start) (drop start s) = drop j s"
        using that(1) by (rule drop_drop_diff)
      ultimately have "\<not> prefix sub (drop j s)" by (simp del: drop_drop)
      then show ?thesis by (simp add: occurs_at_def)
    qed
    with a(1) il p show ?R by (auto simp: first_at_def occurs_at_def)
  next
    assume r: ?R
    then have a: "start \<le> i" "i \<le> length s" "prefix sub (drop i s)"
      and n: "\<And>j. start \<le> j \<Longrightarrow> j < i \<Longrightarrow> \<not> occurs_at s sub j"
      by (auto simp: first_at_def occurs_at_def)
    have "\<not> prefix sub (drop j (drop start s))" if "j < i - start" for j
    proof -
      from that a have "start \<le> j + start" "j + start < i" "j + start \<le> length s" by simp_all
      with n[of "j + start"] show ?thesis by (simp add: occurs_at_def add.commute)
    qed
    with a True show ?L by (simp add: find_idx_Some)
  qed
  with True show ?thesis by (simp add: py_find_def)
next
  case False
  then have "\<not> first_at s sub start i" by (auto simp: first_at_def occurs_at_def)
  with False show ?thesis by (simp add: py_find_def)
qed

lemma find_idx_None_all:
  "find_idx sub t k = None \<longleftrightarrow> (\<forall>j\<le>length t. \<not> prefix sub (drop j t))"
proof (induction t arbitrary: k)
  case Nil
  then show ?case by simp
next
  case (Cons c cs)
  have "(\<forall>j\<le>length (c # cs). \<not> prefix sub (drop j (c # cs))) \<longleftrightarrow>
        \<not> prefix sub (c # cs) \<and> (\<forall>j\<le>length cs. \<not> prefix sub (drop j cs))"
    (is "?L \<longleftrightarrow> ?R")
  proof
    assume l: ?L
    have "\<not> prefix sub (drop 0 (c # cs))" using l by blast
    moreover have "\<not> prefix sub (drop j cs)" if "j \<le> length cs" for j
      using l[rule_format, of "Suc j"] that by simp
    ultimately show ?R by simp
  next
    assume r: ?R
    show ?L
    proof (intro allI impI)
      fix j assume "j \<le> length (c # cs)"
      then show "\<not> prefix sub (drop j (c # cs))"
        using r by (cases j) auto
    qed
  qed
  with Cons[of "Suc k"] show ?case by simp
qed

lemma py_find_absent: "py_find s sub start = None \<longleftrightarrow> absent_from s sub start"
proof (cases "start \<le> length s")
  case True
  have "(\<forall>j\<le>length (drop start s). \<not> prefix sub (drop j (drop start s))) \<longleftrightarrow>
        absent_from s sub start" (is "?L \<longleftrightarrow> ?R")
  proof
    assume l: ?L
    show ?R unfolding absent_from_def occurs_at_def
    proof (intro allI impI notI)
      fix j assume j: "start \<le> j" "j \<le> length s \<and> prefix sub (drop j s)"
      then have "j - start \<le> length (drop start s)" by (auto intro: diff_le_mono)
      with l have "\<not> prefix sub (drop (j - start) (drop start s))" by blast
      moreover have "drop (j - start) (drop start s) = drop j s"
        using j(1) by (rule drop_drop_diff)
      ultimately have "\<not> prefix sub (drop j s)" by (simp del: drop_drop)
      with j(2) show False by simp
    qed
  next
    assume r: ?R
    show ?L
    proof (intro allI impI)
      fix j assume "j \<le> length (drop start s)"
      with True have "start \<le> j + start" "j + start \<le> length s" by simp_all
      with r have "\<not> prefix sub (drop (j + start) s)"
        unfolding absent_from_def occurs_at_def by blast
      then show "\<not> prefix sub (drop j (drop start s))" by (simp add: add.commute)
    qed
  qed
  with True show ?thesis by (simp add: py_find_def find_idx_None_all)
next
  case False
  then have "absent_from s sub start" by (auto simp: absent_from_def occurs_at_def)
  with False show ?thesis by (simp add: py_find_def)
qed


lemma split_rows_nonempty: "split_rows s \<noteq> []"
  by (cases s) (simp_all split: list.splits)

lemma split_rows_sep:
  assumes "prefix [CHR 0x0A, CHR ''|'', CHR ''-''] (c # cs)"
  shows "split_rows (c # cs) = [] # split_rows (drop 2 cs)"
  by (subst split_rows.simps) (simp only: assms if_True)

lemma split_rows_no_sep:
  assumes "\<not> prefix [CHR 0x0A, CHR ''|'', CHR ''-''] (c # cs)"
  shows "split_rows (c # cs) = (c # hd (split_rows cs)) # tl (split_rows cs)"
proof -
  obtain x xs where x: "split_rows cs = x # xs"
    using split_rows_nonempty[of cs] by (cases "split_rows cs") auto
  have "split_rows (c # cs) = (case split_rows cs of seg # segs \<Rightarrow> (c # seg) # segs | [] \<Rightarrow> [[c]])"
    by (subst split_rows.simps) (simp only: assms if_False)
  then show ?thesis by (simp add: x)
qed

lemma join_rows_Cons: "join_rows ((c # x) # xs) = c # join_rows (x # xs)"
  by (cases xs) simp_all

lemma prefix_row_sep:
  "prefix [CHR 0x0A, CHR ''|'', CHR ''-''] (c # cs) \<Longrightarrow> c # cs = row_sep @ drop 2 cs"
  by (auto simp: row_sep_def prefix_def)

lemma join_split_rows: "join_rows (split_rows s) = s"
proof (induction s rule: split_rows.induct)
  case 1
  then show ?case by simp
next
  case (2 c cs)
  show ?case
  proof (cases "prefix [CHR 0x0A, CHR ''|'', CHR ''-''] (c # cs)")
    case True
    obtain x xs where x: "split_rows (drop 2 cs) = x # xs"
      using split_rows_nonempty[of "drop 2 cs"] by (cases "split_rows (drop 2 cs)") auto
    have s: "split_rows (c # cs) = [] # split_rows (drop 2 cs)"
      using True by (rule split_rows_sep)
    from True "2.IH"(1) have "join_rows (split_rows (drop 2 cs)) = drop 2 cs" by simp
    with x have "join_rows (split_rows (c # cs)) = row_sep @ drop 2 cs"
      by (simp add: s del: split_rows.simps)
    with prefix_row_sep[OF True] show ?thesis by simp
  next
    case False
    obtain x xs where x: "split_rows cs = x # xs"
      using split_rows_nonempty[of cs] by (cases "split_rows cs") auto
    have s: "split_rows (c # cs) = (c # hd (split_rows cs)) # tl (split_rows cs)"
      using False by (rule split_rows_no_sep)
    from False "2.IH"(2) have "join_rows (split_rows cs) = cs" by simp
    with x show ?thesis by (simp add: s join_rows_Cons del: split_rows.simps)
  qed
qed

lemma split_rows_segments:
  "(\<forall>seg\<in>set (split_rows s). \<not> sublist row_sep seg) \<and> prefix (hd (split_rows s)) s"
proof (induction s rule: split_rows.induct)
  case 1
  then show ?case by (simp add: row_sep_def)
next
  case (2 c cs)
  show ?case
  proof (cases "prefix [CHR 0x0A, CHR ''|'', CHR ''-''] (c # cs)")
    case True
    have s: "split_rows (c # cs) = [] # split_rows (drop 2 cs)"
      using True by (rule split_rows_sep)
    from True "2.IH"(1) have "\<forall>seg\<in>set (split_rows (drop 2 cs)). \<not> sublist row_sep seg"
      by simp
    moreover have "\<not> sublist row_sep []" by (simp add: row_sep_def)
    ultimately show ?thesis by (simp add: s del: split_rows.simps)
  next
    case False
    with "2.IH"(2) have ih: "\<forall>seg\<in>set (split_rows cs). \<not> sublist row_sep seg"
      "prefix (hd (split_rows cs)) cs" by simp_all
    obtain x xs where x: "split_rows cs = x # xs"
      using split_rows_nonempty[of cs] by (cases "split_rows cs") auto
    from ih x have nx: "\<not> sublist row_sep x" and pxs: "\<forall>seg\<in>set xs. \<not> sublist row_sep seg"
      and px: "prefix x cs" by simp_all
    have "\<not> prefix row_sep (c # x)"
    proof
      assume "prefix row_sep (c # x)"
      moreover from px have "prefix (c # x) (c # cs)" by simp
      ultimately have "prefix row_sep (c # cs)" by (rule prefix_order.trans)
      with False show False by (simp add: row_sep_def)
    qed
    with nx have "\<not> sublist row_sep (c # x)" by (simp add: sublist_Cons_right)
    moreover have s: "split_rows (c # cs) = (c # hd (split_rows cs)) # tl (split_rows cs)"
      using False by (rule split_rows_no_sep)
    ultimately show ?thesis using x pxs px by (simp add: s del: split_rows.simps)
  qed
qed

lemma split_rows_open_marker:
  "tl (split_rows (CHR ''{'' # CHR ''|'' # b)) = tl (split_rows b)"
proof -
  have "split_rows (CHR ''|'' # b) = (CHR ''|'' # hd (split_rows b)) # tl (split_rows b)"
    by (rule split_rows_no_sep) simp
  moreover have "split_rows (CHR ''{'' # CHR ''|'' # b) =
      (CHR ''{'' # hd (split_rows (CHR ''|'' # b))) # tl (split_rows (CHR ''|'' # b))"
    by (rule split_rows_no_sep) simp
  ultimately show ?thesis by (simp del: split_rows.simps)
qed

lemma rows_loop_map_filter:
  "rows_loop entries rows section_name =
     entries @ List.map_filter (\<lambda>row. parse_table_row row section_name) rows"
  by (induction rows arbitrary: entries) (simp_all add: map_filter_simps split: option.splits)

lemma section_step_rows:
  "section_step wikitext (entries, printed) (section_name, header) =
     (rows_loop entries (section_rows wikitext header) section_name,
      printed @ section_warnings wikitext header)"
  by (simp add: section_step_def section_rows_def section_warnings_def Let_def
           split: option.splits)

lemma section_entries_rows:
  "section_entries wikitext section_name header =
     List.map_filter (\<lambda>row. parse_table_row row section_name) (section_rows wikitext header)"
  by (simp add: section_entries_def section_step_rows rows_loop_map_filter)

lemma section_step_eq:
  "section_step wikitext (entries, printed) (section_name, header) =
     (entries @ section_entries wikitext section_name header,
      printed @ section_warnings wikitext header)"
  by (simp add: section_step_rows section_entries_rows rows_loop_map_filter)

lemma foldl_section_step:
  "foldl (section_step wikitext) (entries, printed) secs =
     (entries @ concat (map (\<lambda>(n, h). section_entries wikitext n h) secs),
      printed @ concat (map (\<lambda>(n, h). section_warnings wikitext h) secs))"
proof (induction secs arbitrary: entries printed)
  case Nil
  then show ?case by simp
next
  case (Cons sec secs)
  obtain n h where sec: "sec = (n, h)" by (cases sec)
  show ?case by (simp add: sec section_step_eq Cons.IH)
qed

lemma parse_plate_tables_eq:
  "parse_plate_tables wikitext =
     (concat (map (\<lambda>(n, h). section_entries wikitext n h) sections),
      concat (map (\<lambda>(n, h). section_warnings wikitext h) sections))"
  by (simp add: parse_plate_tables_def foldl_section_step)

lemma map_filter_mem:
  "y \<in> set (List.map_filter f xs) \<longleftrightarrow> (\<exists>x\<in>set xs. f x = Some y)"
  by (induction xs) (auto simp: map_filter_simps split: option.splits)

lemma section_entries_mem:
  "e \<in> set (section_entries wikitext n h) \<longleftrightarrow>
     (\<exists>row\<in>set (section_rows wikitext h). parse_table_row row n = Some e)"
  by (simp add: section_entries_rows map_filter_mem)

lemma section_entries_label:
  "e \<in> set (section_entries wikitext n h) \<Longrightarrow> section_label e = n"
proof -
  assume "e \<in> set (section_entries wikitext n h)"
  then obtain row where "parse_table_row row n = Some e"
    by (auto simp: section_entries_mem)
  from parse_table_row_Some[OF this] show ?thesis by auto
qed

lemma occurs_at_Cons:
  "occurs_at s (c # sub) i \<Longrightarrow> \<exists>r. drop i s = c # r"
  by (auto simp: occurs_at_def prefix_def)

lemma heading_chars:
  assumes "occurs_at s header start" "start \<le> j" "j < start + length header"
  shows "\<exists>r. drop j s = header ! (j - start) # r"
proof -
  from assms(1) obtain rest where r: "drop start s = header @ rest"
    by (auto simp: occurs_at_def prefix_def)
  have "drop j s = drop (j - start) (drop start s)"
    using assms(2) by (simp add: drop_drop_diff del: drop_drop)
  also have "\<dots> = drop (j - start) header @ rest"
    using r assms(2,3) by simp
  also have "drop (j - start) header = header ! (j - start) # drop (Suc (j - start)) header"
    using assms(2,3) by (intro Cons_nth_drop_Suc[symmetric]) simp
  finally show ?thesis by simp
qed

lemma no_marker_in_heading:
  assumes "occurs_at s header start" "c \<notin> set header" "start \<le> j" "j < start + length header"
  shows "\<not> occurs_at s (c # sub) j"
proof
  assume "occurs_at s (c # sub) j"
  from occurs_at_Cons[OF this] obtain r where "drop j s = c # r" by blast
  moreover from heading_chars[OF assms(1,3,4)] obtain r' where
    "drop j s = header ! (j - start) # r'" by blast
  ultimately have "c = header ! (j - start)" by simp
  moreover have "header ! (j - start) \<in> set header" using assms(3,4) by simp
  ultimately show False using assms(2) by simp
qed

lemma first_at_after_heading:
  assumes "occurs_at s header start" "c \<notin> set header"
  shows "first_at s (c # sub) start i \<longleftrightarrow> first_at s (c # sub) (start + length header) i"
proof
  assume f: "first_at s (c # sub) start i"
  then have i: "start \<le> i" "occurs_at s (c # sub) i"
    and n: "\<And>j. start \<le> j \<Longrightarrow> j < i \<Longrightarrow> \<not> occurs_at s (c # sub) j"
    by (auto simp: first_at_def)
  have "\<not> i < start + length header"
    using no_marker_in_heading[OF assms i(1)] i(2) by blast
  then have "start + length header \<le> i" by simp
  moreover have "\<not> occurs_at s (c # sub) j" if "start + length header \<le> j" "j < i" for j
    using n[of j] that by simp
  ultimately show "first_at s (c # sub) (start + length header) i"
    using i(2) by (auto simp: first_at_def)
next
  assume f: "first_at s (c # sub) (start + length header) i"
  then have i: "start + length header \<le> i" "occurs_at s (c # sub) i"
    and n: "\<And>j. start + length header \<le> j \<Longrightarrow> j < i \<Longrightarrow> \<not> occurs_at s (c # sub) j"
    by (auto simp: first_at_def)
  have "\<not> occurs_at s (c # sub) j" if "start \<le> j" "j < i" for j
  proof (cases "j < start + length header")
    case True
    with assms that show ?thesis by (intro no_marker_in_heading)
  next
    case False
    with n[of j] that show ?thesis by simp
  qed
  with i show "first_at s (c # sub) start i" by (auto simp: first_at_def)
qed

lemma absent_from_after_heading:
  assumes "occurs_at s header start" "c \<notin> set header"
  shows "absent_from s (c # sub) start \<longleftrightarrow> absent_from s (c # sub) (start + length header)"
proof
  assume "absent_from s (c # sub) start"
  then show "absent_from s (c # sub) (start + length header)"
    by (auto simp: absent_from_def)
next
  assume a: "absent_from s (c # sub) (start + length header)"
  show "absent_from s (c # sub) start"
    unfolding absent_from_def
  proof (intro allI impI)
    fix j assume j: "start \<le> j"
    show "\<not> occurs_at s (c # sub) j"
    proof (cases "j < start + length header")
      case True
      with assms j show ?thesis by (intro no_marker_in_heading)
    next
      case False
      with a show ?thesis by (simp add: absent_from_def)
    qed
  qed
qed

lemma sections_no_brace: "(n, h) \<in> set sections \<Longrightarrow> CHR ''{'' \<notin> set h"
  by (auto simp: sections_def)

lemma table_body_rows:
  assumes "first_at s ''{|'' start ts" "first_at s ''|}'' ts te"
  shows "tl (split_rows (py_slice s ts te)) = tl (split_rows (py_slice s (ts + 2) te))"
proof -
  from assms(1) obtain r where r: "drop ts s = CHR ''{'' # CHR ''|'' # r"
    by (auto simp: first_at_def occurs_at_def prefix_def)
  from assms(2) have te: "ts \<le> te" and o: "prefix ''|}'' (drop te s)"
    by (auto simp: first_at_def occurs_at_def)
  have "te \<noteq> ts" using r o by auto
  with te have lt: "ts < te" by simp
  have d2: "drop (ts + 2) s = r"
  proof -
    have "drop (ts + 2) s = drop 2 (drop ts s)" by (simp add: add.commute)
    then show ?thesis by (simp add: r del: drop_drop)
  qed
  show ?thesis
  proof (cases "te = Suc ts")
    case True
    then show ?thesis by (simp add: py_slice_def r del: drop_drop)
  next
    case False
    with lt obtain k where k: "te - ts = Suc (Suc k)" "te - (ts + 2) = k"
      by (cases "te - ts"; cases "te - ts - 1") auto
    have "py_slice s ts te = CHR ''{'' # CHR ''|'' # take k r"
      by (simp add: py_slice_def r k(1))
    moreover have "py_slice s (ts + 2) te = take k r"
      unfolding py_slice_def d2 k(2) ..
    ultimately show ?thesis by (simp add: split_rows_open_marker del: split_rows.simps)
  qed
qed

lemma map_filter_append:
  "List.map_filter f (xs @ ys) = List.map_filter f xs @ List.map_filter f ys"
  by (simp add: List.map_filter_def)

lemma map_filter_map:
  "List.map_filter f (map g xs) = List.map_filter (\<lambda>x. f (g x)) xs"
  by (simp add: List.map_filter_def filter_map comp_def)

lemma sorted_const: "\<forall>x\<in>set xs. x = (c::nat) \<Longrightarrow> sorted xs"
  by (induction xs) auto

lemma section_entries_rank:
  "\<forall>x\<in>set (map (section_rank \<circ> section_label) (section_entries w n h)). x = section_rank n"
  by (auto dest: section_entries_label)

lemma section_rank_values:
  "section_rank ''countries'' = 0" "section_rank ''transcontinental'' = 1"
  "section_rank ''dependent'' = 2" "section_rank ''disputed'' = 3"
  by (simp_all add: section_rank_def sections_def)

lemma entries_sorted_by_section:
  "sorted (map (section_rank \<circ> section_label) (fst (parse_plate_tables w)))"
proof -
  let ?f = "section_rank \<circ> section_label"
  let ?A = "map ?f (section_entries w ''countries'' ''=== Countries ==='')"
  let ?B = "map ?f (section_entries w ''transcontinental'' ''=== Transcontinental countries ==='')"
  let ?C = "map ?f (section_entries w ''dependent'' ''=== Dependent territories ==='')"
  let ?D = "map ?f (section_entries w ''disputed'' ''=== Disputed territories ==='')"
  have a: "\<forall>x\<in>set ?A. x = 0" using section_entries_rank[of w "''countries''"]
    by (simp only: section_rank_values)
  have b: "\<forall>x\<in>set ?B. x = 1" using section_entries_rank[of w "''transcontinental''"]
    by (simp only: section_rank_values)
  have c: "\<forall>x\<in>set ?C. x = 2" using section_entries_rank[of w "''dependent''"]
    by (simp only: section_rank_values)
  have d: "\<forall>x\<in>set ?D. x = 3" using section_entries_rank[of w "''disputed''"]
    by (simp only: section_rank_values)
  have e: "map ?f (fst (parse_plate_tables w)) = ?A @ ?B @ ?C @ ?D"
    by (simp add: parse_plate_tables_eq sections_def)
  have "sorted (?A @ ?B @ ?C @ ?D)"
    unfolding sorted_append
    using sorted_const[OF a] sorted_const[OF b] sorted_const[OF c] sorted_const[OF d] a b c d
    by fastforce
  with e show ?thesis by simp
qed

lemma entries_from_extract:
  "fst (parse_plate_tables w) =
     List.map_filter (\<lambda>(row, label). parse_table_row row label) (extract_rows w)"
  by (simp add: parse_plate_tables_eq extract_rows_def sections_def map_filter_append
        map_filter_map section_entries_rows)







lemma parse_two_sections:
  "parse_plate_tables wikitext_two_sections =
     ([entry_germany, entry_france, entry_jersey],
      [warning ''=== Transcontinental countries ==='', warning ''=== Disputed territories ===''])"
  unfolding wikitext_two_sections_def entry_germany_def entry_france_def entry_jersey_def
  by code_simp

lemma only_rejected_labels_iff: "only_rejected_labels row \<longleftrightarrow> code_search row = None"
proof
  assume bad: "only_rejected_labels row"
  show "code_search row = None"
  proof (rule ccontr)
    assume "code_search row \<noteq> None"
    then have "has_code_link row" by (simp add: has_code_link_iff)
    then obtain pre m post code where r: "row = pre @ m @ post" and l: "code_link m code"
      unfolding has_code_link_def by (elim exE conjE)
    from l obtain place where m: "m = code_prefix @ place @ ''|'' @ code @ '']]''"
      and p: "place \<noteq> []" "CHR ''|'' \<notin> set place" and c: "code \<noteq> []" "\<forall>c\<in>set code. is_AZ c"
      unfolding code_link_def by (elim exE conjE)
    have "row = pre @ code_prefix @ place @ ''|'' @ code @ '']]'' @ post"
      using r m by simp
    with bad[unfolded only_rejected_labels_def, rule_format, of pre place code post]
      p code_link_bracket[OF l]
    have "code = [] \<or> (\<exists>c\<in>set code. \<not> is_AZ c)" by blast
    with c show False by blast
  qed
next
  assume "code_search row = None"
  then show "only_rejected_labels row"
    unfolding only_rejected_labels_def by (rule no_match_bad_labels)
qed

lemma file_match_at_Image_stop:
  assumes "f \<noteq> []" "\<forall>c\<in>set f. is_name_char c" "\<not> is_name_char t"
  shows "file_match_at (''[[Image:'' @ f @ t # rest) = Some (f, t # rest)"
proof -
  have "takeWhile is_name_char (f @ t # rest) = f"
       "dropWhile is_name_char (f @ t # rest) = t # rest"
    using assms(2,3) by (simp_all add: takeWhile_stop dropWhile_stop)
  with assms(1) show ?thesis by (simp add: file_match_at_def)
qed

lemma code_search_shape:
  assumes "CHR ''['' \<notin> set pre" "place \<noteq> []" "CHR ''|'' \<notin> set place"
    "code \<noteq> []" "\<forall>c\<in>set code. is_AZ c"
  shows "code_search (pre @ code_prefix @ place @ ''|'' @ code @ '']]'' @ post) = Some code"
proof -
  have "code_search (code_prefix @ place @ ''|'' @ code @ '']]'' @ post) = Some code"
    using code_match_at_complete[OF assms(2-5)] by (rule code_search_here)
  with code_search_skip[OF assms(1)] show ?thesis by simp
qed

lemma image_row_shape:
  assumes "CHR ''['' \<notin> set pre" "place \<noteq> []" "CHR ''|'' \<notin> set place"
    "CHR ''['' \<notin> set place" "code \<noteq> []" "\<forall>c\<in>set code. is_AZ c"
    "CHR ''['' \<notin> set mid" "\<forall>c\<in>set f. is_name_char c" "\<not> is_name_char t"
    "\<not> is_strip f" "py_strip f \<noteq> []"
  shows "map_option image_file
           (parse_table_row
              (pre @ code_prefix @ place @ ''|'' @ code @ '']]'' @ mid @
               ''[[Image:'' @ f @ t # rest) section) =
         Some (''File:'' @ py_strip f)"
proof -
  let ?tail = "mid @ ''[[Image:'' @ f @ t # rest"
  let ?row = "pre @ code_prefix @ place @ ''|'' @ code @ '']]'' @ ?tail"
  from assms(11) have fne: "f \<noteq> []" by (auto simp: py_strip_def)
  have c: "code_search ?row = Some code"
    using assms(1,2,3,5,6) by (rule code_search_shape)
  have "file_findall ?row = file_findall (code_prefix @ place @ ''|'' @ code @ '']]'' @ ?tail)"
    using assms(1) by (rule file_findall_skip_pre)
  also have "\<dots> = file_findall ?tail"
    using assms(4,6) by (rule file_findall_code_link)
  also have "\<dots> = file_findall (''[[Image:'' @ f @ t # rest)"
    using assms(7) by (rule file_findall_skip_pre)
  also have "\<dots> = f # file_findall (t # rest)"
    using file_match_at_Image_stop[OF fne assms(8,9)] by (rule file_findall_match)
  finally have "file_findall ?row = [] @ f # file_findall (t # rest)" by simp
  then have "example_image (file_findall ?row) = Some (py_strip f)"
    using example_image_first[of "[]" f "file_findall (t # rest)"] assms(10) by simp
  from parse_table_row_entry[OF c this assms(11)] show ?thesis by simp
qed

lemma entries_from_rows:
  assumes "e \<in> set (fst (parse_plate_tables w))"
  shows "\<exists>row label. (row, label) \<in> set (extract_rows w) \<and> parse_table_row row label = Some e"
proof -
  from assms have "e \<in> set (List.map_filter (\<lambda>(row, label). parse_table_row row label) (extract_rows w))"
    by (simp add: entries_from_extract)
  then obtain x where x: "x \<in> set (extract_rows w)"
    "(\<lambda>(row, label). parse_table_row row label) x = Some e"
    unfolding map_filter_mem by blast
  obtain row label where "x = (row, label)" by (cases x)
  with x show ?thesis by auto
qed

lemma entry_image_form:
  assumes "parse_table_row row label = Some e"
  shows "\<exists>raw. raw \<in> set (file_findall row) \<and> image_file e = ''File:'' @ py_strip raw \<and>
           py_strip raw \<noteq> [] \<and> CHR ''|'' \<notin> set (py_strip raw) \<and>
           CHR '']'' \<notin> set (py_strip raw) \<and>
           \<not> is_space (hd (py_strip raw)) \<and> \<not> is_space (last (py_strip raw))"
proof -
  from parse_table_row_Some[OF assms] obtain img where
    i: "example_image (file_findall row) = Some img" and n: "img \<noteq> []"
    and e: "image_file e = ''File:'' @ img" by auto
  from example_image_Some[OF i] obtain rejected f rest where
    f: "file_findall row = rejected @ f # rest" "img = py_strip f" by blast
  from f(1) have m: "f \<in> set (file_findall row)" by simp
  from file_findall_names[OF m] have "\<forall>c\<in>set f. is_name_char c" by simp
  with set_py_strip[of f] have "CHR ''|'' \<notin> set (py_strip f)" "CHR '']'' \<notin> set (py_strip f)"
    by (auto simp: is_name_char_def)
  with m e n f(2) py_strip_ends[of f] show ?thesis by blast
qed

lemma leftmost_code_link_shape:
  assumes "CHR ''['' \<notin> set pre" "code_link m code"
  shows "leftmost_code_link (pre @ m @ post) code"
proof -
  have "length pre \<le> length pre'"
    if d: "pre @ m @ post = pre' @ m' @ post'" and l: "code_link m' code'"
    for pre' m' post' code'
  proof (rule ccontr)
    assume "\<not> length pre \<le> length pre'"
    then have lt: "length pre' < length pre" by simp
    from l obtain r where m': "m' = CHR ''['' # r"
      by (auto simp: code_link_def code_prefix_def)
    have "(pre @ m @ post) ! length pre' = pre ! length pre'"
      using lt by (simp add: nth_append)
    moreover have "(pre' @ m' @ post') ! length pre' = CHR ''[''"
      by (simp add: m')
    ultimately have "pre ! length pre' = CHR ''[''" using d by simp
    with lt assms(1) show False by (metis nth_mem)
  qed
  with assms(2) show ?thesis unfolding leftmost_code_link_def by blast
qed

section \<open>The properties of the specification\<close>

text \<open>
  \<^bold>\<open>C1\<close> (as amended). Let a row have a code link, \<open>code\<close> being the label of the
  leftmost one, and let \<open>f\<close> be the first file reference of the row, in the order in
  which \<^verbatim>\<open>re.findall\<close> lists them, whose filename contains no blocklist substring
  (case-insensitively), all references before it being blocklisted. If the filename
  \<open>f\<close> is not blank, the row classifier returns exactly that code and the reference
  \<open>File:\<close> followed by the stripped filename. Every entry the classifier produces, for
  any row, carries an image reference that is not judged a strip.
  The claim as stated has no condition on blank filenames; it fails on
  \<open>row_blank_first\<close>, where the first surviving candidate is a single space: the loop
  stops there, and the guard \<^verbatim>\<open>if not example_image\<close> returns nothing although the
  next reference would survive.
\<close>

theorem first_surviving_reference:
  assumes "leftmost_code_link row_text code"
    and "file_findall row_text = rejected @ f # rest"
    and "\<forall>g\<in>set rejected. is_strip g"
    and "\<not> is_strip f"
    and "py_strip f \<noteq> []"
  shows "parse_table_row row_text section =
           Some \<lparr> wiki_code = code, iso = dict_get WIKI_CODE_TO_ISO code code,
                  name = dict_get TERRITORY_NAMES (dict_get WIKI_CODE_TO_ISO code code) code,
                  image_file = ''File:'' @ py_strip f, section_label = section \<rparr>
         \<and> \<not> is_strip (py_strip f)
         \<and> (\<forall>r s e. parse_table_row r s = Some e \<longrightarrow>
               (\<exists>img. image_file e = ''File:'' @ img \<and> \<not> is_strip img))"
proof (intro conjI allI impI)
  from assms(1) have c: "code_search row_text = Some code" by (simp add: leftmost_code_link_iff)
  have i: "example_image (file_findall row_text) = Some (py_strip f)"
    unfolding assms(2) using assms(3,4) by (rule example_image_first)
  from c i assms(5) show "parse_table_row row_text section =
           Some \<lparr> wiki_code = code, iso = dict_get WIKI_CODE_TO_ISO code code,
                  name = dict_get TERRITORY_NAMES (dict_get WIKI_CODE_TO_ISO code code) code,
                  image_file = ''File:'' @ py_strip f, section_label = section \<rparr>"
    by (rule parse_table_row_entry)
  from assms(4) show "\<not> is_strip (py_strip f)" by (simp add: is_strip_py_strip)
next
  fix r s e assume "parse_table_row r s = Some e"
  from parse_table_row_Some[OF this] obtain img where
    i: "example_image (file_findall r) = Some img" and e: "image_file e = ''File:'' @ img"
    by auto
  from example_image_Some[OF i] have "\<not> is_strip img" by (auto simp: is_strip_py_strip)
  with e show "\<exists>img. image_file e = ''File:'' @ img \<and> \<not> is_strip img" by blast
qed

theorem first_surviving_reference_witness:
  "leftmost_code_link row_germany ''D''
   \<and> file_findall row_germany = [''Germany_euroband.png''] @ ''Germany_license_plate.jpg'' # []
   \<and> is_strip ''Germany_euroband.png''
   \<and> \<not> is_strip ''Germany_license_plate.jpg''
   \<and> py_strip ''Germany_license_plate.jpg'' \<noteq> []
   \<and> parse_table_row row_germany ''countries'' = Some entry_germany"
proof -
  have "code_search row_germany = Some ''D''" unfolding row_germany_def by code_simp
  then have 1: "leftmost_code_link row_germany ''D''" by (simp add: leftmost_code_link_iff)
  have 2: "file_findall row_germany = [''Germany_euroband.png''] @ ''Germany_license_plate.jpg'' # []"
    unfolding row_germany_def by code_simp
  have s: "is_strip ''Germany_euroband.png''" by code_simp
  then have 3: "\<forall>g\<in>set [''Germany_euroband.png'']. is_strip g" by simp
  have 4: "\<not> is_strip ''Germany_license_plate.jpg''" by code_simp
  have 5: "py_strip ''Germany_license_plate.jpg'' \<noteq> []" by code_simp
  have 6: "py_strip ''Germany_license_plate.jpg'' = ''Germany_license_plate.jpg''" by code_simp
  have 7: "dict_get WIKI_CODE_TO_ISO ''D'' ''D'' = ''DE''" by code_simp
  have 8: "dict_get TERRITORY_NAMES ''DE'' ''D'' = ''Germany''" by code_simp
  from first_surviving_reference[OF 1 2 3 4 5, of "''countries''"]
  have "parse_table_row row_germany ''countries'' = Some entry_germany"
    by (simp add: 6 7 8 entry_germany_def)
  with 1 2 s 4 5 show ?thesis by blast
qed

theorem first_surviving_reference_counterexample:
  "leftmost_code_link row_blank_first ''D''
   \<and> file_findall row_blank_first = ['' '', ''Germany_license_plate.jpg'']
   \<and> \<not> is_strip '' ''
   \<and> \<not> is_strip ''Germany_license_plate.jpg''
   \<and> parse_table_row row_blank_first ''countries'' = None"
proof -
  have "code_search row_blank_first = Some ''D''" unfolding row_blank_first_def by code_simp
  then have 1: "leftmost_code_link row_blank_first ''D''" by (simp add: leftmost_code_link_iff)
  have 2: "file_findall row_blank_first = ['' '', ''Germany_license_plate.jpg'']"
    unfolding row_blank_first_def by code_simp
  have 3: "\<not> is_strip '' ''" by code_simp
  have 4: "\<not> is_strip ''Germany_license_plate.jpg''" by code_simp
  have 5: "parse_table_row row_blank_first ''countries'' = None"
    unfolding row_blank_first_def by code_simp
  from 1 2 3 4 5 show ?thesis by blast
qed

text \<open>
  \<^bold>\<open>C2\<close>. If the filename of every file reference of a row contains a blocklist
  substring (case-insensitively), the row classifier returns nothing, and the row loop
  of the extractor goes on without appending an entry. The witness is the row whose
  only image reference is \<^verbatim>\<open>[[File:Foo-band.svg]]\<close>, next to a valid code link.
\<close>

theorem all_blocked_no_entry:
  assumes "\<forall>f\<in>set (file_findall row_text). is_strip f"
  shows "parse_table_row row_text section = None
         \<and> rows_loop entries (row_text # rows) section = rows_loop entries rows section"
proof -
  from assms have "example_image (file_findall row_text) = None"
    by (rule example_image_all_strip)
  then have "parse_table_row row_text section = None" by (rule parse_table_row_no_image)
  then show ?thesis by simp
qed

theorem all_blocked_no_entry_witness:
  "code_search row_foo_band = Some ''FOO''
   \<and> file_findall row_foo_band = [''Foo-band.svg'']
   \<and> is_strip ''Foo-band.svg''
   \<and> parse_table_row row_foo_band ''countries'' = None
   \<and> rows_loop [] [row_foo_band] ''countries'' = []"
proof -
  have 1: "code_search row_foo_band = Some ''FOO''" unfolding row_foo_band_def by code_simp
  have 2: "file_findall row_foo_band = [''Foo-band.svg'']" unfolding row_foo_band_def by code_simp
  have s: "is_strip ''Foo-band.svg''" by code_simp
  with 2 have 3: "\<forall>f\<in>set (file_findall row_foo_band). is_strip f" by simp
  from all_blocked_no_entry[OF 3, of "''countries''" "[]" "[]"]
  have "parse_table_row row_foo_band ''countries'' = None"
    "rows_loop [] [row_foo_band] ''countries'' = []" by simp_all
  with 1 2 s show ?thesis by blast
qed

text \<open>
  \<^bold>\<open>C3\<close>. A row that contains the link
  \<^verbatim>\<open>[[Vehicle registration plates of Germany|D]]\<close>, then \<^verbatim>\<open>[[File:Germany_euroband.png]]\<close>,
  then \<^verbatim>\<open>[[File:Germany_license_plate.jpg]]\<close>, with text free of opening brackets in
  front of and between the three, and anything behind them, is classified as code
  \<open>D\<close> with image reference \<open>File:Germany_license_plate.jpg\<close>.
\<close>

theorem germany_scenario:
  assumes "CHR ''['' \<notin> set pre" "CHR ''['' \<notin> set mid1" "CHR ''['' \<notin> set mid2"
  shows "parse_table_row
           (pre @ ''[[Vehicle registration plates of Germany|D]]'' @ mid1 @
            ''[[File:Germany_euroband.png]]'' @ mid2 @
            ''[[File:Germany_license_plate.jpg]]'' @ post) section =
         Some \<lparr> wiki_code = ''D'', iso = ''DE'', name = ''Germany'',
                image_file = ''File:Germany_license_plate.jpg'', section_label = section \<rparr>"
proof -
  let ?link = "''[[Vehicle registration plates of Germany|D]]''"
  let ?tail = "mid1 @ ''[[File:Germany_euroband.png]]'' @ mid2 @
            ''[[File:Germany_license_plate.jpg]]'' @ post"
  let ?row = "pre @ ?link @ ?tail"
  have link: "?link = code_prefix @ ''Germany'' @ ''|'' @ ''D'' @ '']]''"
    by (simp add: code_prefix_def)
  have "code_match_at (code_prefix @ ''Germany'' @ ''|'' @ ''D'' @ '']]'' @ ?tail) = Some ''D''"
    by (rule code_match_at_complete) (simp_all add: is_AZ_def)
  then have "code_search (code_prefix @ ''Germany'' @ ''|'' @ ''D'' @ '']]'' @ ?tail) = Some ''D''"
    by (rule code_search_here)
  then have "code_search (?link @ ?tail) = Some ''D''"
    unfolding link by simp
  then have c: "code_search ?row = Some ''D''"
    using code_search_skip[OF assms(1), of "?link @ ?tail"] by simp
  have "file_findall ?row = file_findall (?link @ ?tail)"
    using assms(1) by (rule file_findall_skip_pre)
  also have "\<dots> = file_findall (code_prefix @ ''Germany'' @ ''|'' @ ''D'' @ '']]'' @ ?tail)"
    unfolding link by simp
  also have "\<dots> = file_findall ?tail"
    by (rule file_findall_code_link) (simp_all add: is_AZ_def)
  also have "\<dots> = ''Germany_euroband.png'' #
      file_findall (mid2 @ ''[[File:Germany_license_plate.jpg]]'' @ post)"
    using file_findall_File[OF assms(2) _ is_name_char_germany(1)] by simp
  also have "file_findall (mid2 @ ''[[File:Germany_license_plate.jpg]]'' @ post) =
      ''Germany_license_plate.jpg'' # file_findall post"
    using file_findall_File[OF assms(3) _ is_name_char_germany(2)] by simp
  finally have f: "file_findall ?row =
     [''Germany_euroband.png''] @ ''Germany_license_plate.jpg'' # file_findall post"
    by simp
  have s1: "\<forall>g\<in>set [''Germany_euroband.png'']. is_strip g" by code_simp
  have s2: "\<not> is_strip ''Germany_license_plate.jpg''" by code_simp
  have i: "example_image (file_findall ?row) = Some (py_strip ''Germany_license_plate.jpg'')"
    unfolding f using s1 s2 by (rule example_image_first)
  have p: "py_strip ''Germany_license_plate.jpg'' = ''Germany_license_plate.jpg''" by code_simp
  have d1: "dict_get WIKI_CODE_TO_ISO ''D'' ''D'' = ''DE''" by code_simp
  have d2: "dict_get TERRITORY_NAMES ''DE'' ''D'' = ''Germany''" by code_simp
  from parse_table_row_entry[OF c i, of "section"] show ?thesis
    by (simp add: p d1 d2)
qed

theorem germany_scenario_witness:
  "CHR ''['' \<notin> set ''| Germany || '' \<and> CHR ''['' \<notin> set '' || '' \<and> CHR ''['' \<notin> set '' || ''
   \<and> parse_table_row
       ''| Germany || [[Vehicle registration plates of Germany|D]] || [[File:Germany_euroband.png]] || [[File:Germany_license_plate.jpg]] || [[File:Germany_moto.jpg]]''
       ''countries'' =
      Some \<lparr> wiki_code = ''D'', iso = ''DE'', name = ''Germany'',
             image_file = ''File:Germany_license_plate.jpg'', section_label = ''countries'' \<rparr>"
proof -
  have 1: "CHR ''['' \<notin> set ''| Germany || ''" by simp
  have 2: "CHR ''['' \<notin> set '' || ''" by simp
  from germany_scenario[OF 1 2 2, of "'' || [[File:Germany_moto.jpg]]''" "''countries''"] 1 2
  show ?thesis by simp
qed

text \<open>
  \<^bold>\<open>C4\<close>. The list \<^verbatim>\<open>parse_plate_tables\<close> returns is a function of the markup alone
  (the source reads nothing else, so the embedding is a function and equal markup
  gives equal results). The list is obtained from the rows of \<open>extract_rows\<close>, which
  lists the data rows section by section in the order the sections are declared and,
  within a section, in the order of the table, by classifying each row and keeping
  the entries in that order; so the section ranks of the entries never decrease.
\<close>

theorem entries_in_section_then_row_order:
  "fst (parse_plate_tables wikitext) =
     List.map_filter (\<lambda>(row, label). parse_table_row row label) (extract_rows wikitext)
   \<and> sorted (map (section_rank \<circ> section_label) (fst (parse_plate_tables wikitext)))
   \<and> (wikitext = wikitext' \<longrightarrow> parse_plate_tables wikitext = parse_plate_tables wikitext')"
  using entries_from_extract[of wikitext] entries_sorted_by_section[of wikitext] by simp

theorem entries_in_section_then_row_order_witness:
  "wikitext_two_sections = wikitext_two_sections
   \<and> fst (parse_plate_tables wikitext_two_sections) = [entry_germany, entry_france, entry_jersey]
   \<and> List.map_filter (\<lambda>(row, label). parse_table_row row label)
        (extract_rows wikitext_two_sections) = [entry_germany, entry_france, entry_jersey]
   \<and> sorted (map (section_rank \<circ> section_label) [entry_germany, entry_france, entry_jersey])
   \<and> parse_plate_tables wikitext_two_sections = parse_plate_tables wikitext_two_sections"
proof -
  have e: "fst (parse_plate_tables wikitext_two_sections) =
      [entry_germany, entry_france, entry_jersey]"
    by (simp add: parse_two_sections)
  from entries_in_section_then_row_order[of wikitext_two_sections wikitext_two_sections]
  have 1: "fst (parse_plate_tables wikitext_two_sections) =
      List.map_filter (\<lambda>(row, label). parse_table_row row label)
        (extract_rows wikitext_two_sections)"
    and 2: "sorted (map (section_rank \<circ> section_label)
        (fst (parse_plate_tables wikitext_two_sections)))"
    by blast+
  from 1 have 3: "List.map_filter (\<lambda>(row, label). parse_table_row row label)
        (extract_rows wikitext_two_sections) = [entry_germany, entry_france, entry_jersey]"
    by (simp only: e)
  from 2 have 4: "sorted (map (section_rank \<circ> section_label)
      [entry_germany, entry_france, entry_jersey])"
    by (simp only: e)
  from e 3 4 show ?thesis by blast
qed

text \<open>
  \<^bold>\<open>C5\<close>. Canonicalization never fails: for every non-empty wiki code (the classifier
  only yields labels matching \<^verbatim>\<open>[A-Z]+\<close>) the territory id, taken from the code table
  with the code itself as fallback, and the display name, taken from the name table
  at that id with the wiki code as fallback, are both non-empty; every entry of the
  classifier carries exactly these two values. \<open>UK\<close> gives \<open>GB\<close> and
  \<open>United Kingdom\<close>; the unmapped \<open>XYZ\<close> gives \<open>XYZ\<close> twice.
\<close>

theorem canonicalize_total:
  "(wiki \<noteq> [] \<longrightarrow>
      dict_get WIKI_CODE_TO_ISO wiki wiki \<noteq> [] \<and>
      dict_get TERRITORY_NAMES (dict_get WIKI_CODE_TO_ISO wiki wiki) wiki \<noteq> [])
   \<and> (parse_table_row row_text section = Some e \<longrightarrow>
      iso e = dict_get WIKI_CODE_TO_ISO (wiki_code e) (wiki_code e) \<and>
      name e = dict_get TERRITORY_NAMES (iso e) (wiki_code e) \<and>
      iso e \<noteq> [] \<and> name e \<noteq> [])
   \<and> dict_get WIKI_CODE_TO_ISO ''UK'' ''UK'' = ''GB''
   \<and> dict_get TERRITORY_NAMES ''GB'' ''UK'' = ''United Kingdom''
   \<and> dict_get WIKI_CODE_TO_ISO ''XYZ'' ''XYZ'' = ''XYZ''
   \<and> dict_get TERRITORY_NAMES ''XYZ'' ''XYZ'' = ''XYZ''"
proof (intro conjI impI)
  assume w: "wiki \<noteq> []"
  show "dict_get WIKI_CODE_TO_ISO wiki wiki \<noteq> []"
    using WIKI_CODE_TO_ISO_nonempty w by (rule dict_get_nonempty)
  show "dict_get TERRITORY_NAMES (dict_get WIKI_CODE_TO_ISO wiki wiki) wiki \<noteq> []"
    using TERRITORY_NAMES_nonempty w by (rule dict_get_nonempty)
next
  assume a: "parse_table_row row_text section = Some e"
  from parse_table_row_Some[OF a] obtain code img where
    c: "code_search row_text = Some code"
    and e: "e = \<lparr> wiki_code = code, iso = dict_get WIKI_CODE_TO_ISO code code,
                 name = dict_get TERRITORY_NAMES (dict_get WIKI_CODE_TO_ISO code code) code,
                 image_file = ''File:'' @ img, section_label = section \<rparr>"
    by blast
  from code_search_AZ[OF c] have w: "code \<noteq> []" by simp
  show "iso e = dict_get WIKI_CODE_TO_ISO (wiki_code e) (wiki_code e)" by (simp add: e)
  show "name e = dict_get TERRITORY_NAMES (iso e) (wiki_code e)" by (simp add: e)
  show "iso e \<noteq> []" using dict_get_nonempty[OF WIKI_CODE_TO_ISO_nonempty w] by (simp add: e)
  show "name e \<noteq> []" using dict_get_nonempty[OF TERRITORY_NAMES_nonempty w] by (simp add: e)
next
  show "dict_get WIKI_CODE_TO_ISO ''UK'' ''UK'' = ''GB''" by code_simp
  show "dict_get TERRITORY_NAMES ''GB'' ''UK'' = ''United Kingdom''" by code_simp
  show "dict_get WIKI_CODE_TO_ISO ''XYZ'' ''XYZ'' = ''XYZ''" by code_simp
  show "dict_get TERRITORY_NAMES ''XYZ'' ''XYZ'' = ''XYZ''" by code_simp
qed

theorem canonicalize_total_witness:
  "''TRNC'' \<noteq> [] \<and> dict_get WIKI_CODE_TO_ISO ''TRNC'' ''TRNC'' \<noteq> []
   \<and> dict_get TERRITORY_NAMES (dict_get WIKI_CODE_TO_ISO ''TRNC'' ''TRNC'') ''TRNC'' \<noteq> []
   \<and> parse_table_row row_uk ''countries'' = Some entry_uk
   \<and> iso entry_uk \<noteq> [] \<and> name entry_uk \<noteq> []"
proof -
  have p: "parse_table_row row_uk ''countries'' = Some entry_uk"
    unfolding row_uk_def entry_uk_def by code_simp
  have n: "''TRNC'' \<noteq> []" by simp
  from canonicalize_total[of "''TRNC''" row_uk "''countries''" entry_uk] p n
  show ?thesis by blast
qed

text \<open>
  \<^bold>\<open>C6\<close>. A row no part of which is a code link (the opening
  \<^verbatim>\<open>[[Vehicle registration plates of \<close>, a non-empty place without bar, a bar, a label
  of capitals and the closing brackets) is classified as nothing, whatever image
  references it contains.
\<close>

theorem no_code_link_no_entry:
  "\<not> has_code_link row_text \<Longrightarrow> parse_table_row row_text section = None"
  by (simp add: has_code_link_iff parse_table_row_no_code)

theorem no_code_link_no_entry_witness:
  "\<not> has_code_link row_header_cells
   \<and> file_findall row_header_cells = [''Plate.jpg'']
   \<and> parse_table_row row_header_cells ''countries'' = None"
proof -
  have "code_search row_header_cells = None"
    unfolding row_header_cells_def by code_simp
  then have h: "\<not> has_code_link row_header_cells"
    by (simp add: has_code_link_iff)
  have f: "file_findall row_header_cells = [''Plate.jpg'']"
    unfolding row_header_cells_def by code_simp
  from h f no_code_link_no_entry[OF h] show ?thesis by simp
qed

text \<open>
  \<^bold>\<open>C7\<close> (as amended). Let a configured heading first occur at \<open>start\<close>. If the first
  table-open marker behind the heading is at \<open>table_start\<close> and the first table-close
  marker at or behind the position of that open marker is at \<open>table_end\<close>, the rows the
  extractor processes for the section are the segments of the text between the two
  markers, cut at the row separator, without the first segment (the source slices
  from the open marker on, which changes the discarded first segment only). The
  close marker so found is the next one behind the open marker unless the bar of the
  open marker is followed by a closing brace: in \<^verbatim>\<open>{|}\<close> the bar is shared, the body is
  empty and the section yields no rows. If either marker is missing the section
  leaves the state as it is. Cutting at the separator means: the segments joined by
  the separator give the text back, and no segment contains the separator.
  The claim as stated takes the next close marker behind the open marker; it fails
  on \<open>wikitext_shared_bar\<close>, where that reading gives one data row and the source none.
\<close>

theorem table_body_and_rows:
  assumes "(section_name, header) \<in> set sections"
    and "first_at wikitext header 0 start"
  shows "(first_at wikitext ''{|'' (start + length header) table_start \<and>
          first_at wikitext ''|}'' table_start table_end \<longrightarrow>
            section_rows wikitext header =
              tl (split_rows (py_slice wikitext (table_start + 2) table_end)) \<and>
            section_rows wikitext header =
              tl (split_rows (py_slice wikitext table_start table_end)) \<and>
            section_step wikitext (entries, printed) (section_name, header) =
              (rows_loop entries
                 (tl (split_rows (py_slice wikitext (table_start + 2) table_end)))
                 section_name, printed))
       \<and> (first_at wikitext ''{|'' (start + length header) table_start \<and>
          first_at wikitext ''|}'' (table_start + 2) table_end \<and>
          \<not> occurs_at wikitext ''|}'' (table_start + 1) \<longrightarrow>
            first_at wikitext ''|}'' table_start table_end)
       \<and> (first_at wikitext ''{|'' (start + length header) table_start \<and>
          occurs_at wikitext ''|}'' (table_start + 1) \<longrightarrow>
            section_step wikitext (entries, printed) (section_name, header) = (entries, printed))
       \<and> (absent_from wikitext ''{|'' (start + length header) \<or>
          (first_at wikitext ''{|'' (start + length header) table_start \<and>
           absent_from wikitext ''|}'' table_start) \<longrightarrow>
            section_step wikitext (entries, printed) (section_name, header) = (entries, printed))
       \<and> join_rows (split_rows body) = body
       \<and> (\<forall>seg\<in>set (split_rows body). \<not> sublist row_sep seg)"
proof (intro conjI impI)
  from assms(2) have h: "py_find wikitext header 0 = Some start"
    by (simp add: py_find_first_at)
  from assms(2) have occ: "occurs_at wikitext header start" by (simp add: first_at_def)
  from assms(1) have nb: "CHR ''{'' \<notin> set header" by (rule sections_no_brace)
  have w: "section_warnings wikitext header = []" using h by (simp add: section_warnings_def)
  {
    assume a: "first_at wikitext ''{|'' (start + length header) table_start \<and>
          first_at wikitext ''|}'' table_start table_end"
    then have ts: "first_at wikitext ''{|'' start table_start"
      using first_at_after_heading[OF occ nb, of "''|''" table_start] by simp
    then have 1: "py_find wikitext ''{|'' start = Some table_start"
      by (simp add: py_find_first_at)
    from a have 2: "py_find wikitext ''|}'' table_start = Some table_end"
      by (simp add: py_find_first_at)
    from a have te: "first_at wikitext ''|}'' table_start table_end" by simp
    show r: "section_rows wikitext header =
              tl (split_rows (py_slice wikitext (table_start + 2) table_end))"
      using table_body_rows[OF ts te] by (simp add: section_rows_def h 1 2)
    show "section_rows wikitext header =
              tl (split_rows (py_slice wikitext table_start table_end))"
      by (simp add: section_rows_def h 1 2)
    show "section_step wikitext (entries, printed) (section_name, header) =
              (rows_loop entries
                 (tl (split_rows (py_slice wikitext (table_start + 2) table_end)))
                 section_name, printed)"
      by (simp add: section_step_rows r w)
  }
  {
    assume a: "first_at wikitext ''{|'' (start + length header) table_start \<and>
          first_at wikitext ''|}'' (table_start + 2) table_end \<and>
          \<not> occurs_at wikitext ''|}'' (table_start + 1)"
    then have "occurs_at wikitext ''{|'' table_start" by (simp add: first_at_def)
    then have n0: "\<not> occurs_at wikitext ''|}'' table_start"
      by (auto simp: occurs_at_def prefix_def)
    from a have te: "table_start + 2 \<le> table_end" "occurs_at wikitext ''|}'' table_end"
      and n2: "\<And>j. table_start + 2 \<le> j \<Longrightarrow> j < table_end \<Longrightarrow> \<not> occurs_at wikitext ''|}'' j"
      and n1: "\<not> occurs_at wikitext ''|}'' (table_start + 1)"
      by (auto simp: first_at_def)
    have "\<not> occurs_at wikitext ''|}'' j" if "table_start \<le> j" "j < table_end" for j
    proof -
      from that(1) consider "j = table_start" | "j = table_start + 1" | "table_start + 2 \<le> j"
        by linarith
      then show ?thesis
      proof cases
        case 1 with n0 show ?thesis by simp
      next
        case 2 with n1 show ?thesis by simp
      next
        case 3 with n2 that(2) show ?thesis by simp
      qed
    qed
    with te show "first_at wikitext ''|}'' table_start table_end"
      by (auto simp: first_at_def)
  }
  {
    assume a: "first_at wikitext ''{|'' (start + length header) table_start \<and>
          occurs_at wikitext ''|}'' (table_start + 1)"
    then have ts: "first_at wikitext ''{|'' start table_start"
      using first_at_after_heading[OF occ nb, of "''|''" table_start] by simp
    then have "occurs_at wikitext ''{|'' table_start" by (simp add: first_at_def)
    then have n0: "\<not> occurs_at wikitext ''|}'' table_start"
      by (auto simp: occurs_at_def prefix_def)
    have te: "first_at wikitext ''|}'' table_start (table_start + 1)"
      unfolding first_at_def
    proof (intro conjI allI impI)
      show "table_start \<le> table_start + 1" by simp
      from a show "occurs_at wikitext ''|}'' (table_start + 1)" by simp
      fix j assume "table_start \<le> j \<and> j < table_start + 1"
      then have "j = table_start" by simp
      with n0 show "\<not> occurs_at wikitext ''|}'' j" by simp
    qed
    from ts have 1: "py_find wikitext ''{|'' start = Some table_start"
      by (simp only: py_find_first_at)
    from te have 2: "py_find wikitext ''|}'' table_start = Some (table_start + 1)"
      by (simp only: py_find_first_at)
    have "section_rows wikitext header =
        tl (split_rows (py_slice wikitext (table_start + 2) (table_start + 1)))"
      using table_body_rows[OF ts te] by (simp add: section_rows_def h 1 2)
    then have "section_rows wikitext header = []" by (simp add: py_slice_def)
    then show "section_step wikitext (entries, printed) (section_name, header) = (entries, printed)"
      by (simp add: section_step_rows w)
  }
  {
    assume a: "absent_from wikitext ''{|'' (start + length header) \<or>
          (first_at wikitext ''{|'' (start + length header) table_start \<and>
           absent_from wikitext ''|}'' table_start)"
    have "section_rows wikitext header = []"
    proof (rule disjE[OF a])
      assume "absent_from wikitext ''{|'' (start + length header)"
      then have "absent_from wikitext ''{|'' start"
        using absent_from_after_heading[OF occ nb, of "''|''"] by simp
      then have "py_find wikitext ''{|'' start = None" by (simp add: py_find_absent)
      then show ?thesis by (simp add: section_rows_def h)
    next
      assume b: "first_at wikitext ''{|'' (start + length header) table_start \<and>
           absent_from wikitext ''|}'' table_start"
      then have "first_at wikitext ''{|'' start table_start"
        using first_at_after_heading[OF occ nb, of "''|''" table_start] by simp
      then have 1: "py_find wikitext ''{|'' start = Some table_start"
        by (simp add: py_find_first_at)
      from b have "py_find wikitext ''|}'' table_start = None" by (simp add: py_find_absent)
      with 1 show ?thesis by (simp add: section_rows_def h)
    qed
    then show "section_step wikitext (entries, printed) (section_name, header) = (entries, printed)"
      by (simp add: section_step_rows w)
  }
  show "join_rows (split_rows body) = body" by (rule join_split_rows)
  show "\<forall>seg\<in>set (split_rows body). \<not> sublist row_sep seg"
    using split_rows_segments[of body] by simp
qed

theorem table_body_and_rows_witness:
  "(''countries'', ''=== Countries ==='') \<in> set sections
   \<and> first_at wikitext_two_sections ''=== Countries ==='' 0 6
   \<and> first_at wikitext_two_sections ''{|'' (6 + length ''=== Countries ==='') 24
   \<and> first_at wikitext_two_sections ''|}'' (24 + 2) 301
   \<and> \<not> occurs_at wikitext_two_sections ''|}'' (24 + 1)
   \<and> first_at wikitext_two_sections ''|}'' 24 301
   \<and> section_step wikitext_two_sections ([], []) (''countries'', ''=== Countries ==='') =
        ([entry_germany, entry_france], [])
   \<and> first_at wikitext_no_table ''=== Countries ==='' 0 0
   \<and> absent_from wikitext_no_table ''{|'' (0 + length ''=== Countries ==='')
   \<and> section_step wikitext_no_table ([], []) (''countries'', ''=== Countries ==='') = ([], [])
   \<and> first_at wikitext_open_only ''=== Countries ==='' 0 0
   \<and> first_at wikitext_open_only ''{|'' (0 + length ''=== Countries ==='') 18
   \<and> absent_from wikitext_open_only ''|}'' 18
   \<and> section_step wikitext_open_only ([], []) (''countries'', ''=== Countries ==='') = ([], [])
   \<and> first_at wikitext_shared_bar ''=== Countries ==='' 0 0
   \<and> first_at wikitext_shared_bar ''{|'' (0 + length ''=== Countries ==='') 18
   \<and> occurs_at wikitext_shared_bar ''|}'' (18 + 1)
   \<and> section_step wikitext_shared_bar ([], []) (''countries'', ''=== Countries ==='') = ([], [])"
proof -
  have s: "(''countries'', ''=== Countries ==='') \<in> set sections" by (simp add: sections_def)
  have len: "0 + length ''=== Countries ==='' = 17" "6 + length ''=== Countries ==='' = 23"
    by code_simp+
  have "py_find wikitext_two_sections ''=== Countries ==='' 0 = Some 6"
    unfolding wikitext_two_sections_def by code_simp
  then have a1: "first_at wikitext_two_sections ''=== Countries ==='' 0 6"
    by (simp add: py_find_first_at)
  have "py_find wikitext_two_sections ''{|'' 23 = Some 24"
    unfolding wikitext_two_sections_def by code_simp
  then have "first_at wikitext_two_sections ''{|'' 23 24"
    by (simp only: py_find_first_at)
  then have a2: "first_at wikitext_two_sections ''{|'' (6 + length ''=== Countries ==='') 24"
    by (simp only: len)
  have "py_find wikitext_two_sections ''|}'' 26 = Some 301"
    unfolding wikitext_two_sections_def by code_simp
  then have "first_at wikitext_two_sections ''|}'' 26 301"
    by (simp only: py_find_first_at)
  then have a3': "first_at wikitext_two_sections ''|}'' (24 + 2) 301" by simp
  have "\<not> occurs_at wikitext_two_sections ''|}'' 25"
    unfolding wikitext_two_sections_def by code_simp
  then have a3n: "\<not> occurs_at wikitext_two_sections ''|}'' (24 + 1)" by simp
  from table_body_and_rows[OF s a1, of 24 301] a2 a3' a3n
  have a3: "first_at wikitext_two_sections ''|}'' 24 301" by blast
  have a4: "rows_loop [] (tl (split_rows (py_slice wikitext_two_sections (24 + 2) 301))) ''countries''
      = [entry_germany, entry_france]"
    unfolding wikitext_two_sections_def entry_germany_def entry_france_def by code_simp
  from table_body_and_rows[OF s a1, of 24 301 "[]" "[]"] a2 a3
  have a5: "section_step wikitext_two_sections ([], []) (''countries'', ''=== Countries ==='') =
        ([entry_germany, entry_france], [])"
    by (simp only: a4)
  have "py_find wikitext_no_table ''=== Countries ==='' 0 = Some 0"
    unfolding wikitext_no_table_def by code_simp
  then have b1: "first_at wikitext_no_table ''=== Countries ==='' 0 0"
    by (simp add: py_find_first_at)
  have "py_find wikitext_no_table ''{|'' 17 = None"
    unfolding wikitext_no_table_def by code_simp
  then have "absent_from wikitext_no_table ''{|'' 17"
    by (simp only: py_find_absent)
  then have b2: "absent_from wikitext_no_table ''{|'' (0 + length ''=== Countries ==='')"
    by (simp only: len)
  from table_body_and_rows[OF s b1, of _ _ "[]" "[]"] b2
  have b3: "section_step wikitext_no_table ([], []) (''countries'', ''=== Countries ==='') = ([], [])"
    by blast
  have "py_find wikitext_open_only ''=== Countries ==='' 0 = Some 0"
    unfolding wikitext_open_only_def by code_simp
  then have c1: "first_at wikitext_open_only ''=== Countries ==='' 0 0"
    by (simp add: py_find_first_at)
  have "py_find wikitext_open_only ''{|'' 17 = Some 18"
    unfolding wikitext_open_only_def by code_simp
  then have "first_at wikitext_open_only ''{|'' 17 18"
    by (simp only: py_find_first_at)
  then have c2: "first_at wikitext_open_only ''{|'' (0 + length ''=== Countries ==='') 18"
    by (simp only: len)
  have "py_find wikitext_open_only ''|}'' 18 = None"
    unfolding wikitext_open_only_def by code_simp
  then have c3: "absent_from wikitext_open_only ''|}'' 18"
    by (simp add: py_find_absent)
  from table_body_and_rows[OF s c1, of 18 _ "[]" "[]"] c2 c3
  have c4: "section_step wikitext_open_only ([], []) (''countries'', ''=== Countries ==='') = ([], [])"
    by blast
  have "py_find wikitext_shared_bar ''=== Countries ==='' 0 = Some 0"
    unfolding wikitext_shared_bar_def by code_simp
  then have d1: "first_at wikitext_shared_bar ''=== Countries ==='' 0 0"
    by (simp add: py_find_first_at)
  have "py_find wikitext_shared_bar ''{|'' 17 = Some 18"
    unfolding wikitext_shared_bar_def by code_simp
  then have "first_at wikitext_shared_bar ''{|'' 17 18"
    by (simp only: py_find_first_at)
  then have d2: "first_at wikitext_shared_bar ''{|'' (0 + length ''=== Countries ==='') 18"
    by (simp only: len)
  have "occurs_at wikitext_shared_bar ''|}'' 19"
    unfolding wikitext_shared_bar_def by code_simp
  then have d3: "occurs_at wikitext_shared_bar ''|}'' (18 + 1)" by simp
  from table_body_and_rows[OF s d1, of 18 _ "[]" "[]"] d2 d3
  have d4: "section_step wikitext_shared_bar ([], []) (''countries'', ''=== Countries ==='') = ([], [])"
    by blast
  from s a1 a2 a3' a3n a3 a5 b1 b2 b3 c1 c2 c3 c4 d1 d2 d3 d4 show ?thesis by blast
qed

theorem table_body_and_rows_counterexample:
  "first_at wikitext_shared_bar ''=== Countries ==='' 0 0
   \<and> first_at wikitext_shared_bar ''{|'' (0 + length ''=== Countries ==='') 18
   \<and> first_at wikitext_shared_bar ''|}'' (18 + 2) 90
   \<and> rows_loop [] (tl (split_rows (py_slice wikitext_shared_bar (18 + 2) 90))) ''countries''
       = [entry_two_links]
   \<and> section_step wikitext_shared_bar ([], []) (''countries'', ''=== Countries ==='') = ([], [])"
proof -
  have len: "0 + length ''=== Countries ==='' = 17" by code_simp
  have "py_find wikitext_shared_bar ''=== Countries ==='' 0 = Some 0"
    unfolding wikitext_shared_bar_def by code_simp
  then have 1: "first_at wikitext_shared_bar ''=== Countries ==='' 0 0"
    by (simp add: py_find_first_at)
  have "py_find wikitext_shared_bar ''{|'' 17 = Some 18"
    unfolding wikitext_shared_bar_def by code_simp
  then have "first_at wikitext_shared_bar ''{|'' 17 18"
    by (simp only: py_find_first_at)
  then have 2: "first_at wikitext_shared_bar ''{|'' (0 + length ''=== Countries ==='') 18"
    by (simp only: len)
  have "py_find wikitext_shared_bar ''|}'' 20 = Some 90"
    unfolding wikitext_shared_bar_def by code_simp
  then have "first_at wikitext_shared_bar ''|}'' 20 90"
    by (simp only: py_find_first_at)
  then have 3: "first_at wikitext_shared_bar ''|}'' (18 + 2) 90" by simp
  have 4: "rows_loop [] (tl (split_rows (py_slice wikitext_shared_bar (18 + 2) 90))) ''countries''
       = [entry_two_links]"
    unfolding wikitext_shared_bar_def entry_two_links_def by code_simp
  have 5: "section_step wikitext_shared_bar ([], []) (''countries'', ''=== Countries ==='') = ([], [])"
    unfolding wikitext_shared_bar_def by code_simp
  from 1 2 3 4 5 show ?thesis by blast
qed



text \<open>
  \<^bold>\<open>C9\<close>. The image reference of every entry of the extraction pass is \<open>File:\<close>
  followed by the stripped filename of a file reference captured in one of the
  extracted rows: the stripped name is not empty, contains neither bar nor closing
  bracket, and neither starts nor ends with whitespace. A reference written
  \<^verbatim>\<open>[[Image:...\<close> that is the first reference behind the code link of a row, and not
  blocklisted or blank, comes out under the \<open>File:\<close> prefix.
\<close>

theorem image_reference_form:
  "(e \<in> set (fst (parse_plate_tables wikitext)) \<longrightarrow>
      (\<exists>row label raw. (row, label) \<in> set (extract_rows wikitext) \<and>
         raw \<in> set (file_findall row) \<and>
         image_file e = ''File:'' @ py_strip raw \<and>
         py_strip raw \<noteq> [] \<and>
         CHR ''|'' \<notin> set (py_strip raw) \<and> CHR '']'' \<notin> set (py_strip raw) \<and>
         \<not> is_space (hd (py_strip raw)) \<and> \<not> is_space (last (py_strip raw))))
   \<and> (CHR ''['' \<notin> set pre \<and> place \<noteq> [] \<and> CHR ''|'' \<notin> set place \<and>
      CHR ''['' \<notin> set place \<and> code \<noteq> [] \<and> (\<forall>c\<in>set code. is_AZ c) \<and>
      CHR ''['' \<notin> set mid \<and> (\<forall>c\<in>set f. is_name_char c) \<and> \<not> is_name_char t \<and>
      \<not> is_strip f \<and> py_strip f \<noteq> [] \<longrightarrow>
        map_option image_file
          (parse_table_row
             (pre @ code_prefix @ place @ ''|'' @ code @ '']]'' @ mid @
              ''[[Image:'' @ f @ t # rest) section) =
        Some (''File:'' @ py_strip f))"
proof (intro conjI impI)
  assume "e \<in> set (fst (parse_plate_tables wikitext))"
  from entries_from_rows[OF this] obtain row label where
    r: "(row, label) \<in> set (extract_rows wikitext)" "parse_table_row row label = Some e"
    by blast
  from entry_image_form[OF r(2)] r(1)
  show "\<exists>row label raw. (row, label) \<in> set (extract_rows wikitext) \<and>
         raw \<in> set (file_findall row) \<and>
         image_file e = ''File:'' @ py_strip raw \<and>
         py_strip raw \<noteq> [] \<and>
         CHR ''|'' \<notin> set (py_strip raw) \<and> CHR '']'' \<notin> set (py_strip raw) \<and>
         \<not> is_space (hd (py_strip raw)) \<and> \<not> is_space (last (py_strip raw))"
    by blast
next
  assume a: "CHR ''['' \<notin> set pre \<and> place \<noteq> [] \<and> CHR ''|'' \<notin> set place \<and>
      CHR ''['' \<notin> set place \<and> code \<noteq> [] \<and> (\<forall>c\<in>set code. is_AZ c) \<and>
      CHR ''['' \<notin> set mid \<and> (\<forall>c\<in>set f. is_name_char c) \<and> \<not> is_name_char t \<and>
      \<not> is_strip f \<and> py_strip f \<noteq> []"
  show "map_option image_file
          (parse_table_row
             (pre @ code_prefix @ place @ ''|'' @ code @ '']]'' @ mid @
              ''[[Image:'' @ f @ t # rest) section) =
        Some (''File:'' @ py_strip f)"
    by (rule image_row_shape) (use a in blast)+
qed

theorem image_reference_form_witness:
  "entry_france \<in> set (fst (parse_plate_tables wikitext_two_sections))
   \<and> image_file entry_france = ''File:France plate.jpg''
   \<and> (\<exists>row label raw. (row, label) \<in> set (extract_rows wikitext_two_sections) \<and>
         raw \<in> set (file_findall row) \<and>
         image_file entry_france = ''File:'' @ py_strip raw \<and>
         py_strip raw \<noteq> [] \<and>
         CHR ''|'' \<notin> set (py_strip raw) \<and> CHR '']'' \<notin> set (py_strip raw) \<and>
         \<not> is_space (hd (py_strip raw)) \<and> \<not> is_space (last (py_strip raw)))
   \<and> py_strip '' France plate.jpg '' = ''France plate.jpg''
   \<and> map_option image_file
        (parse_table_row
           (''| France || '' @ code_prefix @ ''France'' @ ''|'' @ ''F'' @ '']]'' @ '' || '' @
            ''[[Image:'' @ '' France plate.jpg '' @ CHR ''|'' # ''200px]]'') ''countries'') =
      Some ''File:France plate.jpg''"
proof -
  have m: "entry_france \<in> set (fst (parse_plate_tables wikitext_two_sections))"
    by (simp add: parse_two_sections)
  have i: "image_file entry_france = ''File:France plate.jpg''"
    by (simp add: entry_france_def)
  have p: "py_strip '' France plate.jpg '' = ''France plate.jpg''" by code_simp
  have ns: "\<not> is_strip '' France plate.jpg ''" by code_simp
  have h: "CHR ''['' \<notin> set ''| France || '' \<and> ''France'' \<noteq> [] \<and> CHR ''|'' \<notin> set ''France'' \<and>
      CHR ''['' \<notin> set ''France'' \<and> ''F'' \<noteq> [] \<and> (\<forall>c\<in>set ''F''. is_AZ c) \<and>
      CHR ''['' \<notin> set '' || '' \<and> (\<forall>c\<in>set '' France plate.jpg ''. is_name_char c) \<and>
      \<not> is_name_char CHR ''|'' \<and>
      \<not> is_strip '' France plate.jpg '' \<and> py_strip '' France plate.jpg '' \<noteq> []"
    using ns by (simp add: p is_AZ_def is_name_char_def)
  note t = image_reference_form[of entry_france wikitext_two_sections "''| France || ''"
      "''France''" "''F''" "'' || ''" "'' France plate.jpg ''" "CHR ''|''" "''200px]]''"
      "''countries''"]
  from t m have 1: "\<exists>row label raw. (row, label) \<in> set (extract_rows wikitext_two_sections) \<and>
         raw \<in> set (file_findall row) \<and>
         image_file entry_france = ''File:'' @ py_strip raw \<and>
         py_strip raw \<noteq> [] \<and>
         CHR ''|'' \<notin> set (py_strip raw) \<and> CHR '']'' \<notin> set (py_strip raw) \<and>
         \<not> is_space (hd (py_strip raw)) \<and> \<not> is_space (last (py_strip raw))"
    by blast
  from t h have "map_option image_file
        (parse_table_row
           (''| France || '' @ code_prefix @ ''France'' @ ''|'' @ ''F'' @ '']]'' @ '' || '' @
            ''[[Image:'' @ '' France plate.jpg '' @ CHR ''|'' # ''200px]]'') ''countries'') =
      Some (''File:'' @ py_strip '' France plate.jpg '')"
    by blast
  then have 2: "map_option image_file
        (parse_table_row
           (''| France || '' @ code_prefix @ ''France'' @ ''|'' @ ''F'' @ '']]'' @ '' || '' @
            ''[[Image:'' @ '' France plate.jpg '' @ CHR ''|'' # ''200px]]'') ''countries'') =
      Some ''File:France plate.jpg''"
    by (simp only: p append_Cons append_Nil)
  from m i 1 p 2 show ?thesis by blast
qed

text \<open>
  \<^bold>\<open>C10\<close>. The code of an entry is the label of the leftmost code link of the row,
  where a code link needs a label of one or more capitals A to Z: the code is
  non-empty and all its characters are capitals. A row in which every link of that
  shape has a label that is empty or contains some other character (a digit, a
  lowercase letter, a space) yields no entry. With several code links in a row the
  leftmost supplies the code: the code-extraction step returns a code exactly when
  it is the label of the leftmost code link, wherever in the row that link stands,
  it returns one for every row that has a code link, and the entry of such a row,
  once an image is chosen, carries that code.
\<close>

theorem code_label_uppercase_leftmost:
  "(parse_table_row row_text section = Some e \<longrightarrow>
      wiki_code e \<noteq> [] \<and> (\<forall>c\<in>set (wiki_code e). is_AZ c) \<and>
      leftmost_code_link row_text (wiki_code e))
   \<and> (only_rejected_labels row_text \<longrightarrow> parse_table_row row_text section = None)
   \<and> (leftmost_code_link row_text code \<and> parse_table_row row_text section = Some e
       \<longrightarrow> wiki_code e = code)
   \<and> (leftmost_code_link row_text code \<longleftrightarrow> code_search row_text = Some code)
   \<and> (has_code_link row_text \<longrightarrow> (\<exists>label. code_search row_text = Some label))
   \<and> (leftmost_code_link row_text code \<and>
      example_image (file_findall row_text) = Some img \<and> img \<noteq> [] \<longrightarrow>
        parse_table_row row_text section =
          Some \<lparr> wiki_code = code, iso = dict_get WIKI_CODE_TO_ISO code code,
                 name = dict_get TERRITORY_NAMES (dict_get WIKI_CODE_TO_ISO code code) code,
                 image_file = ''File:'' @ img, section_label = section \<rparr>)"
proof (intro conjI impI)
  assume a: "parse_table_row row_text section = Some e"
  from parse_table_row_Some[OF a] obtain code img where
    c: "code_search row_text = Some code" and e: "wiki_code e = code" by auto
  from code_search_AZ[OF c] e show "wiki_code e \<noteq> []" by simp
  from code_search_AZ[OF c] e show "\<forall>c\<in>set (wiki_code e). is_AZ c" by simp
  from c e show "leftmost_code_link row_text (wiki_code e)" by (simp add: leftmost_code_link_iff)
next
  assume "only_rejected_labels row_text"
  then have "code_search row_text = None" by (simp add: only_rejected_labels_iff)
  then show "parse_table_row row_text section = None" by (rule parse_table_row_no_code)
next
  assume a: "leftmost_code_link row_text code \<and> parse_table_row row_text section = Some e"
  then have c: "code_search row_text = Some code" by (simp add: leftmost_code_link_iff)
  from a have "parse_table_row row_text section = Some e" by simp
  from parse_table_row_Some[OF this] obtain code' where
    "code_search row_text = Some code'" "wiki_code e = code'" by auto
  with c show "wiki_code e = code" by simp
next
  show "leftmost_code_link row_text code \<longleftrightarrow> code_search row_text = Some code"
    by (rule leftmost_code_link_iff)
next
  assume "has_code_link row_text"
  then show "\<exists>label. code_search row_text = Some label"
    by (auto simp: has_code_link_iff)
next
  assume a: "leftmost_code_link row_text code \<and>
      example_image (file_findall row_text) = Some img \<and> img \<noteq> []"
  then have c: "code_search row_text = Some code" by (simp add: leftmost_code_link_iff)
  from a have i: "example_image (file_findall row_text) = Some img" and n: "img \<noteq> []"
    by simp_all
  from c i n show "parse_table_row row_text section =
          Some \<lparr> wiki_code = code, iso = dict_get WIKI_CODE_TO_ISO code code,
                 name = dict_get TERRITORY_NAMES (dict_get WIKI_CODE_TO_ISO code code) code,
                 image_file = ''File:'' @ img, section_label = section \<rparr>"
    by (rule parse_table_row_entry)
qed

theorem code_label_uppercase_leftmost_witness:
  "leftmost_code_link row_links_later ''D''
   \<and> has_code_link row_links_later
   \<and> code_search row_links_later = Some ''D''
   \<and> example_image (file_findall row_links_later) = Some ''P.jpg''
   \<and> parse_table_row row_links_later ''countries'' = Some entry_two_links
   \<and> wiki_code entry_two_links = ''D''
   \<and> only_rejected_labels row_bad_label
   \<and> parse_table_row row_bad_label ''countries'' = None"
proof -
  have link: "code_link ''[[Vehicle registration plates of Germany|D]]'' ''D''"
    unfolding code_link_def
    by (rule exI[of _ "''Germany''"]) (simp add: code_prefix_def is_AZ_def)
  have "leftmost_code_link
      (''| Germany || '' @ ''[[Vehicle registration plates of Germany|D]]'' @
       '' || [[Vehicle registration plates of France|F]] || [[File:P.jpg]]'') ''D''"
    by (rule leftmost_code_link_shape[OF _ link]) simp
  then have l: "leftmost_code_link row_links_later ''D''"
    by (simp add: row_links_later_def)
  have hl: "has_code_link
      (''| Germany || '' @ ''[[Vehicle registration plates of Germany|D]]'' @
       '' || [[Vehicle registration plates of France|F]] || [[File:P.jpg]]'')"
    unfolding has_code_link_def using link by blast
  then have h: "has_code_link row_links_later"
    by (simp add: row_links_later_def)
  have i: "example_image (file_findall row_links_later) = Some ''P.jpg''"
    unfolding row_links_later_def by code_simp
  have d: "dict_get WIKI_CODE_TO_ISO ''D'' ''D'' = ''DE''"
    "dict_get TERRITORY_NAMES ''DE'' ''D'' = ''Germany''" by code_simp+
  note t = code_label_uppercase_leftmost[of row_links_later "''countries''" entry_two_links
      "''D''" "''P.jpg''"]
  from t l have c: "code_search row_links_later = Some ''D''" by blast
  from t l i have "parse_table_row row_links_later ''countries'' =
          Some \<lparr> wiki_code = ''D'', iso = dict_get WIKI_CODE_TO_ISO ''D'' ''D'',
                 name = dict_get TERRITORY_NAMES (dict_get WIKI_CODE_TO_ISO ''D'' ''D'') ''D'',
                 image_file = ''File:'' @ ''P.jpg'', section_label = ''countries'' \<rparr>"
    by blast
  then have p: "parse_table_row row_links_later ''countries'' = Some entry_two_links"
    by (simp add: d entry_two_links_def)
  have w: "wiki_code entry_two_links = ''D''" by (simp add: entry_two_links_def)
  have "code_search row_bad_label = None"
    unfolding row_bad_label_def by code_simp
  then have b: "only_rejected_labels row_bad_label"
    by (simp only: only_rejected_labels_iff)
  from code_label_uppercase_leftmost[of row_bad_label "''countries''"] b
  have n: "parse_table_row row_bad_label ''countries'' = None" by blast
  from l h c i p w b n show ?thesis by blast
qed

end
